theory Spec2Isabelle
  imports Main
begin

section \<open>JavaScript values and the object store\<close>

text \<open>
  The client of \<^verbatim>\<open>index.ts\<close> works on plain JavaScript objects that are shared by
  reference: the caller's argument object becomes the \<^verbatim>\<open>json\<close> field of the options,
  \<^verbatim>\<open>Object.assign\<close> copies references, and \<^verbatim>\<open>request\<close> may write into the very object
  its caller passed. Objects therefore live in a store, and a value refers to an object
  by its address.

  Modelling boundaries, fixed here once:
  \<^item> numbers are integers (status codes, counters, identifiers);
  \<^item> a string is a list of characters, one \<^typ>\<open>char\<close> per code unit, so only code units
    below 256 occur;
  \<^item> arrays are immutable values (the source never writes to an array);
  \<^item> an object is the map from its own enumerable property names to their values (the
    source never observes the order of the properties of a stored object); members
    inherited from \<^verbatim>\<open>Object.prototype\<close> are not modelled, so property names such as
    \<^verbatim>\<open>toString\<close> are taken not to occur as keys looked up by the source;
  \<^item> calls of the logger \<^verbatim>\<open>depends.debug\<close> have no effect on control flow and are left out.
\<close>

type_synonym addr = nat

datatype val =
    VUndefined
  | VNull
  | VBool bool
  | VNum int
  | VStr string
  | VArr "val list"
  | VRef addr

type_synonym obj = "string \<rightharpoonup> val"

type_synonym heap = "obj list"

definition alloc :: "heap \<Rightarrow> obj \<Rightarrow> heap \<times> addr" where
  "alloc h ob = (h @ [ob], length h)"

definition deref :: "heap \<Rightarrow> addr \<Rightarrow> obj" where
  "deref h a = (if a < length h then h ! a else Map.empty)"

definition get_prop :: "obj \<Rightarrow> string \<Rightarrow> val" where
  "get_prop ob k = (case ob k of None \<Rightarrow> VUndefined | Some v \<Rightarrow> v)"

definition has_key :: "obj \<Rightarrow> string \<Rightarrow> bool" where
  "has_key ob k = (ob k \<noteq> None)"

definition set_prop :: "obj \<Rightarrow> string \<Rightarrow> val \<Rightarrow> obj" where
  "set_prop ob k v = ob(k \<mapsto> v)"

definition del_prop :: "obj \<Rightarrow> string \<Rightarrow> obj" where
  "del_prop ob k = ob(k := None)"

subsection \<open>Strings of numbers\<close>

definition digit_char :: "nat \<Rightarrow> char" where
  "digit_char d = ''0123456789'' ! d"

fun show_nat :: "nat \<Rightarrow> string" where
  "show_nat n = (if n < 10 then [digit_char n] else show_nat (n div 10) @ [digit_char (n mod 10)])"

declare show_nat.simps [simp del]

definition show_int :: "int \<Rightarrow> string" where
  "show_int i = (if i < 0 then CHR ''-'' # show_nat (nat (- i)) else show_nat (nat i))"

fun join :: "string \<Rightarrow> string list \<Rightarrow> string" where
  "join sep [] = []"
| "join sep [x] = x"
| "join sep (x # y # ys) = x @ sep @ join sep (y # ys)"

subsection \<open>Coercions of the language\<close>

text \<open>\<^verbatim>\<open>String(v)\<close>, as template literals and \<^verbatim>\<open>encodeURIComponent\<close> apply it.\<close>

fun to_string :: "val \<Rightarrow> string" where
  "to_string VUndefined = ''undefined''"
| "to_string VNull = ''null''"
| "to_string (VBool b) = (if b then ''true'' else ''false'')"
| "to_string (VNum n) = show_int n"
| "to_string (VStr s) = s"
| "to_string (VArr xs) =
     join '','' (map (\<lambda>v. if v = VUndefined \<or> v = VNull then [] else to_string v) xs)"
| "to_string (VRef a) = ''[object Object]''"

text \<open>Truthiness, as \<^verbatim>\<open>&&\<close>, \<^verbatim>\<open>||\<close>, \<^verbatim>\<open>!\<close> and \<^verbatim>\<open>if\<close> test it.\<close>

fun truthy :: "val \<Rightarrow> bool" where
  "truthy VUndefined = False"
| "truthy VNull = False"
| "truthy (VBool b) = b"
| "truthy (VNum n) = (n \<noteq> 0)"
| "truthy (VStr s) = (s \<noteq> [])"
| "truthy (VArr xs) = True"
| "truthy (VRef a) = True"




definition trim :: "string \<Rightarrow> string" where
  "trim s = rev (dropWhile (\<lambda>c. c = CHR '' '') (rev (dropWhile (\<lambda>c. c = CHR '' '') s)))"




text \<open>
  Member access \<^verbatim>\<open>v[k]\<close> on a value that is neither \<^verbatim>\<open>undefined\<close> nor \<^verbatim>\<open>null\<close>: a property
  of an object, the \<^verbatim>\<open>length\<close> or an element of an array or a string, \<^verbatim>\<open>undefined\<close>
  otherwise.
\<close>

definition index_of :: "string \<Rightarrow> nat \<Rightarrow> nat option" where
  "index_of k n = find (\<lambda>i. show_nat i = k) [0..<n]"

fun get_member :: "heap \<Rightarrow> val \<Rightarrow> string \<Rightarrow> val" where
  "get_member h (VRef a) k = get_prop (deref h a) k"
| "get_member h (VArr xs) k =
     (if k = ''length'' then VNum (int (length xs))
      else case index_of k (length xs) of None \<Rightarrow> VUndefined | Some i \<Rightarrow> xs ! i)"
| "get_member h (VStr s) k =
     (if k = ''length'' then VNum (int (length s))
      else case index_of k (length s) of None \<Rightarrow> VUndefined | Some i \<Rightarrow> VStr [s ! i])"
| "get_member h v k = VUndefined"

section \<open>Failures and settled promises\<close>

text \<open>
  \<^verbatim>\<open>tv4.error\<close>, the validator's structured error: the location in the document and the
  message (the two fields the source reads).
\<close>

record tv4_error =
  dataPath :: string
  message :: string

datatype failure =
    Error string  \<comment> \<open>\<^verbatim>\<open>new Error(message)\<close>\<close>
  | SchemaError tv4_error  \<comment> \<open>the validator's error object, rejected as it is\<close>
  | TypeError  \<comment> \<open>a \<^verbatim>\<open>TypeError\<close> raised by the language\<close>
  | RenderError  \<comment> \<open>an exception of the templater\<close>



section \<open>The response interpreter\<close>



text \<open>\<^verbatim>\<open>s.match(/sys\/health/) !== null\<close>: the pattern occurs somewhere in \<^verbatim>\<open>s\<close>.\<close>

fun contains :: "string \<Rightarrow> string \<Rightarrow> bool" where
  "contains pat [] = (pat = [])"
| "contains pat (c # cs) = (take (length pat) (c # cs) = pat \<or> contains pat cs)"



section \<open>Merging objects\<close>

text \<open>
  The own enumerable properties \<^verbatim>\<open>Object.assign\<close> reads from a source: those of an
  object, the indexed elements of an array or a string, none of any other value
  (\<^verbatim>\<open>undefined\<close> and \<^verbatim>\<open>null\<close> sources are skipped).
\<close>

definition own_props :: "heap \<Rightarrow> val \<Rightarrow> obj" where
  "own_props h v =
     (case v of
        VRef a \<Rightarrow> deref h a
      | VArr xs \<Rightarrow> map_of (zip (map show_nat [0..<length xs]) xs)
      | VStr s \<Rightarrow> map_of (zip (map show_nat [0..<length s]) (map (\<lambda>c. VStr [c]) s))
      | _ \<Rightarrow> Map.empty)"

definition assign_props :: "obj \<Rightarrow> obj \<Rightarrow> obj" where
  "assign_props target ps = target ++ ps"

text \<open>
  \<^verbatim>\<open>Object.assign(target, ...sources)\<close>: the sources are copied into the target object one
  after the other, each read from the store as the copies before it have left it.
\<close>

fun object_assign :: "heap \<Rightarrow> addr \<Rightarrow> val list \<Rightarrow> heap" where
  "object_assign h t [] = h"
| "object_assign h t (src # srcs) =
     object_assign (h[t := assign_props (deref h t) (own_props h src)]) t srcs"

text \<open>\<^verbatim>\<open>const defaults = (obj, vals) => Object.assign(obj, vals, obj);\<close>\<close>

definition defaults :: "heap \<Rightarrow> addr \<Rightarrow> addr \<Rightarrow> heap" where
  "defaults h ob vals = object_assign h ob [VRef vals, VRef ob]"

text \<open>\<^verbatim>\<open>v[k] = x\<close> for an object \<^verbatim>\<open>v\<close>. The source assigns to a member in one place only, where
  \<^verbatim>\<open>v\<close> is an object (lemma \<open>defaults_headers\<close> below).\<close>

fun set_member :: "heap \<Rightarrow> val \<Rightarrow> string \<Rightarrow> val \<Rightarrow> heap" where
  "set_member h (VRef a) k x = h[a := set_prop (deref h a) k x]"
| "set_member h v k x = h"

section \<open>Strings of the request\<close>

text \<open>\<^verbatim>\<open>s.replace(/pat/g, rep)\<close> for a literal, non-empty pattern.\<close>

fun replace_all :: "string \<Rightarrow> string \<Rightarrow> string \<Rightarrow> string" where
  "replace_all pat rep [] = []"
| "replace_all pat rep (c # cs) =
     (if pat \<noteq> [] \<and> take (length pat) (c # cs) = pat
      then rep @ replace_all pat rep (drop (length pat) (c # cs))
      else c # replace_all pat rep cs)"

text \<open>
  \<^verbatim>\<open>encodeURIComponent\<close>: letters, digits and \<^verbatim>\<open>- _ . ! ~ * ' ( )\<close> stay, every other code
  unit is written as the percent-escaped bytes of its UTF-8 encoding.
\<close>

definition unreserved :: "char \<Rightarrow> bool" where
  "unreserved c =
     (c \<in> set (''ABCDEFGHIJKLMNOPQRSTUVWXYZabcdefghijklmnopqrstuvwxyz0123456789-_.!~*()''
                @ [CHR 0x27]))"

definition hex_digit :: "nat \<Rightarrow> char" where
  "hex_digit d = ''0123456789ABCDEF'' ! d"

definition percent :: "nat \<Rightarrow> string" where
  "percent b = [CHR ''%'', hex_digit (b div 16), hex_digit (b mod 16)]"

definition encode_unit :: "char \<Rightarrow> string" where
  "encode_unit c =
     (let n = (of_char c :: nat) in
      if unreserved c then [c]
      else if n < 128 then percent n
      else percent (192 + n div 64) @ percent (128 + n mod 64))"

definition encodeURIComponent :: "string \<Rightarrow> string" where
  "encodeURIComponent s = concat (map encode_unit s)"

section \<open>Schemas, descriptors and the client\<close>

text \<open>
  A JSON schema, with the keywords the source itself writes or reads: \<^verbatim>\<open>type\<close>,
  \<^verbatim>\<open>properties\<close> (in declaration order) and \<^verbatim>\<open>required\<close>; an absent keyword is \<open>None\<close>.
\<close>

datatype schema =
  Schema (s_type: "string option") (s_properties: "(string \<times> schema) list option")
    (s_required: "string list option")

definition requestSchema :: schema where
  "requestSchema =
     Schema (Some ''object'')
       (Some [(''path'', Schema (Some ''string'') None None),
              (''method'', Schema (Some ''string'') None None)])
       (Some [''path'', ''method''])"

text \<open>A command descriptor of the command table; \<^verbatim>\<open>schema\<close> and its two parts may be absent.\<close>

record schemas =
  req :: "schema option"
  query :: "schema option"

record descriptor =
  http_method :: string
  path :: string
  schema :: "schemas option"
  requestOptions :: val

text \<open>
  The configuration the client is built from and the two environment variables it falls
  back to. \<^verbatim>\<open>a || b\<close> on optional strings takes \<^verbatim>\<open>b\<close> when \<^verbatim>\<open>a\<close> is absent or empty.
\<close>

record VaultConfig =
  cfg_apiVersion :: "string option"
  cfg_endpoint :: "string option"
  cfg_token :: "string option"
  cfg_requestOptions :: val

record process_env =
  VAULT_ADDR :: "string option"
  VAULT_TOKEN :: "string option"

definition or_else :: "string option \<Rightarrow> string option \<Rightarrow> string option" where
  "or_else a b = (case a of None \<Rightarrow> b | Some x \<Rightarrow> if x = [] then b else Some x)"

definition or_default :: "string option \<Rightarrow> string \<Rightarrow> string" where
  "or_default a b = (case a of None \<Rightarrow> b | Some x \<Rightarrow> if x = [] then b else x)"

record client =
  apiVersion :: string
  endpoint :: string
  token :: "string option"
  config :: VaultConfig

definition new_client :: "VaultConfig \<Rightarrow> process_env \<Rightarrow> client" where
  "new_client cfg env =
     \<lparr>apiVersion = or_default (cfg_apiVersion cfg) ''v1'',
      endpoint = or_default (or_else (cfg_endpoint cfg) (VAULT_ADDR env)) ''http://127.0.0.1:8200'',
      token = or_else (cfg_token cfg) (VAULT_TOKEN env),
      config = cfg\<rparr>"

text \<open>
  The two libraries the pipeline calls, taken as parameters.
  \<^item> \<open>tv4_validate h v sch\<close> is \<^verbatim>\<open>depends.tv4.validate(v, sch)\<close> together with the
    \<^verbatim>\<open>depends.tv4.error\<close> it leaves behind: \<open>None\<close> when the document is valid, the error
    otherwise.
  \<^item> \<open>mustache_render h tpl view\<close> is \<^verbatim>\<open>mustache.render(tpl, view)\<close>: the rendered text,
    or \<open>None\<close> when the templater throws.
  Both read the store and cannot write to it.
\<close>

record depends =
  tv4_validate :: "heap \<Rightarrow> val \<Rightarrow> schema \<Rightarrow> tv4_error option"
  mustache_render :: "heap \<Rightarrow> string \<Rightarrow> val \<Rightarrow> string option"

text \<open>
  The state a call runs in: the object store, and the options objects handed to the
  transport \<^verbatim>\<open>rp\<close> so far, in call order (what a transport spy records).
\<close>

record state =
  store :: heap
  sent :: "addr list"

datatype outcome =
    Dispatched addr  \<comment> \<open>\<^verbatim>\<open>rp(options)\<close> was called on this object; its reply settles the call through \<open>handleVaultResponse\<close>\<close>
  | Rejected failure  \<comment> \<open>a rejected promise, the transport not called\<close>
  | Thrown failure  \<comment> \<open>an exception leaves the call, the transport not called\<close>

section \<open>The request operation\<close>

text \<open>
  \<^verbatim>\<open>options = options.inherit === false ? options : Object.assign({}, config.requestOptions, options);\<close>
\<close>

definition inherit_options :: "client \<Rightarrow> heap \<Rightarrow> addr \<Rightarrow> heap \<times> addr" where
  "inherit_options c h a =
     (if get_prop (deref h a) ''inherit'' = VBool False then (h, a)
      else (let (h1, t) = alloc h Map.empty
            in (object_assign h1 t [cfg_requestOptions (config c), VRef a], t)))"

text \<open>The same, followed by \<^verbatim>\<open>delete options.inherit;\<close>: the object \<^verbatim>\<open>request\<close> works on.\<close>

definition working_options :: "client \<Rightarrow> heap \<Rightarrow> addr \<Rightarrow> heap \<times> addr" where
  "working_options c h a =
     (let (h1, options) = inherit_options c h a
      in (h1[options := del_prop (deref h1 options) ''inherit''], options))"

definition request :: "client \<Rightarrow> depends \<Rightarrow> state \<Rightarrow> addr option \<Rightarrow> outcome \<times> state" where
  "request c dep s opt =
     (let (h0, a) = (case opt of None \<Rightarrow> alloc (store s) Map.empty | Some a \<Rightarrow> (store s, a));
          (h2, options) = working_options c h0 a
      in case tv4_validate dep h2 (VRef options) requestSchema of
           Some e \<Rightarrow> (Rejected (SchemaError e), s\<lparr>store := h2\<rparr>)
         | None \<Rightarrow>
             (let uriTpl = endpoint c @ ''/'' @ apiVersion c
                           @ to_string (get_prop (deref h2 options) ''path'')
              in case mustache_render dep h2 uriTpl (get_prop (deref h2 options) ''json'') of
                   None \<Rightarrow> (Thrown RenderError, s\<lparr>store := h2\<rparr>)
                 | Some rendered \<Rightarrow>
                     (let (h3, headers) = alloc h2 Map.empty;
                          (h4, vals) = alloc h3
                             [''uri'' \<mapsto> VStr (replace_all ''&#x2F;'' ''/'' rendered),
                              ''headers'' \<mapsto> VRef headers];
                          h5 = defaults h4 options vals;
                          h6 = (case token c of
                                  None \<Rightarrow> h5
                                | Some t \<Rightarrow>
                                    if t \<noteq> [] \<and> truthy (get_prop (deref h5 options) ''headers'')
                                    then set_member h5 (get_prop (deref h5 options) ''headers'')
                                           ''X-Vault-Token'' (VStr t)
                                    else h5)
                      in (Dispatched options, \<lparr>store = h6, sent = sent s @ [options]\<rparr>))))"

section \<open>Generated operations\<close>

text \<open>\<^verbatim>\<open>validate(json, schema)\<close>: \<open>None\<close> when the promise resolves, the rejection otherwise.\<close>

definition validate :: "depends \<Rightarrow> heap \<Rightarrow> val \<Rightarrow> schema option \<Rightarrow> failure option" where
  "validate dep h json sch =
     (case sch of
        None \<Rightarrow> None
      | Some sc \<Rightarrow>
          (case tv4_validate dep h json sc of None \<Rightarrow> None | Some e \<Rightarrow> Some (SchemaError e)))"

text \<open>\<^verbatim>\<open>key in v\<close>: a \<^verbatim>\<open>TypeError\<close> (\<open>None\<close>) unless \<^verbatim>\<open>v\<close> is an object or an array.\<close>

definition js_in :: "heap \<Rightarrow> val \<Rightarrow> string \<Rightarrow> bool option" where
  "js_in h v k =
     (case v of
        VRef a \<Rightarrow> Some (has_key (deref h a) k)
      | VArr xs \<Rightarrow> Some (k = ''length'' \<or> index_of k (length xs) \<noteq> None)
      | _ \<Rightarrow> None)"

text \<open>The loop of \<^verbatim>\<open>extendOptions\<close> over \<^verbatim>\<open>Object.keys(schema.properties)\<close>, \<^verbatim>\<open>params\<close> its
  accumulator.\<close>

fun collect_params :: "heap \<Rightarrow> val \<Rightarrow> string list \<Rightarrow> string list \<Rightarrow> failure + string list" where
  "collect_params h json [] params = Inr params"
| "collect_params h json (key # keys) params =
     (case js_in h json key of
        None \<Rightarrow> Inl TypeError
      | Some present \<Rightarrow>
          if present
          then collect_params h json keys
                 (params @ [key @ ''='' @ encodeURIComponent (to_string (get_member h json key))])
          else collect_params h json keys params)"

definition extendOptions :: "schemas \<Rightarrow> heap \<Rightarrow> addr \<Rightarrow> failure + heap" where
  "extendOptions sc h options =
     (case query sc of
        None \<Rightarrow> Inr h
      | Some qs \<Rightarrow>
          (case s_properties qs of
             None \<Rightarrow> Inl TypeError
           | Some props \<Rightarrow>
               (case collect_params h (get_prop (deref h options) ''json'') (map fst props) [] of
                  Inl e \<Rightarrow> Inl e
                | Inr params \<Rightarrow>
                    Inr (h[options := set_prop (deref h options) ''path''
                           (VStr (to_string (get_prop (deref h options) ''path'')
                                  @ (if params \<noteq> [] then ''?'' @ join ''&'' params else [])))]))))"

text \<open>
  The first statement of a generated operation:
  \<^verbatim>\<open>Object.assign({}, config.requestOptions, args.requestOptions, {method, path, json: args})\<close>,
  where \<^verbatim>\<open>config\<close> is the descriptor (inside \<^verbatim>\<open>generateFunction\<close> the name is bound to it, not
  to the client's configuration).
\<close>

definition call_literal :: "descriptor \<Rightarrow> addr \<Rightarrow> obj" where
  "call_literal d args =
     [''method'' \<mapsto> VStr (http_method d), ''path'' \<mapsto> VStr (path d), ''json'' \<mapsto> VRef args]"

definition call_options :: "descriptor \<Rightarrow> heap \<Rightarrow> addr \<Rightarrow> heap \<times> addr" where
  "call_options d h args =
     (let (h1, options) = alloc h Map.empty;
          (h2, lit) = alloc h1 (call_literal d args)
      in (object_assign h2 options
            [requestOptions d, get_prop (deref h2 args) ''requestOptions'', VRef lit],
          options))"

text \<open>
  The operation \<^verbatim>\<open>client[name]\<close> that \<^verbatim>\<open>generateFunction\<close> binds to a descriptor. In the
  promise chain an exception of a later stage becomes a rejection.
\<close>

definition operation ::
  "client \<Rightarrow> depends \<Rightarrow> descriptor \<Rightarrow> state \<Rightarrow> addr option \<Rightarrow> outcome \<times> state" where
  "operation c dep d s arg =
     (let (h0, args) = (case arg of None \<Rightarrow> alloc (store s) Map.empty | Some a \<Rightarrow> (store s, a));
          (h3, options) = call_options d h0 args;
          s3 = s\<lparr>store := h3\<rparr>
      in case schema d of
           None \<Rightarrow> request c dep s3 (Some options)
         | Some sc \<Rightarrow>
             (case validate dep h3 (get_prop (deref h3 options) ''json'') (req sc) of
                Some e \<Rightarrow> (Rejected e, s3)
              | None \<Rightarrow>
                  (case validate dep h3 (get_prop (deref h3 options) ''json'') (query sc) of
                     Some e \<Rightarrow> (Rejected e, s3)
                   | None \<Rightarrow>
                       (case extendOptions sc h3 options of
                          Inl e \<Rightarrow> (Rejected e, s3)
                        | Inr h4 \<Rightarrow>
                            (case request c dep (s3\<lparr>store := h4\<rparr>) (Some options) of
                               (Thrown e, s') \<Rightarrow> (Rejected e, s')
                             | r \<Rightarrow> r)))))"

section \<open>The libraries at their defaults\<close>

text \<open>
  Modelled from the spec: the schema validator is the library \<^verbatim>\<open>tv4\<close>, which the
  repository imports and does not contain. This is JSON-schema validation for the keywords
  \<^verbatim>\<open>type\<close>, \<^verbatim>\<open>required\<close> and \<^verbatim>\<open>properties\<close>, checked in that order; a property schema
  applies to the property only when the document has it. The first error found is
  reported, with the location of the offending value.
\<close>

definition json_type :: "val \<Rightarrow> string" where
  "json_type v =
     (case v of
        VUndefined \<Rightarrow> ''undefined''
      | VNull \<Rightarrow> ''null''
      | VBool b \<Rightarrow> ''boolean''
      | VNum n \<Rightarrow> ''number''
      | VStr s \<Rightarrow> ''string''
      | VArr xs \<Rightarrow> ''array''
      | VRef a \<Rightarrow> ''object'')"

definition check_type :: "string \<Rightarrow> val \<Rightarrow> string option \<Rightarrow> tv4_error option" where
  "check_type dp v ty =
     (case ty of
        None \<Rightarrow> None
      | Some t \<Rightarrow>
          if t = json_type v \<or> (t = ''integer'' \<and> json_type v = ''number'') then None
          else Some \<lparr>dataPath = dp,
                     message = ''Invalid type: '' @ json_type v @ '' (expected '' @ t @ '')''\<rparr>)"

fun check_required :: "string \<Rightarrow> obj \<Rightarrow> string list \<Rightarrow> tv4_error option" where
  "check_required dp ob [] = None"
| "check_required dp ob (k # ks) =
     (if get_prop ob k = VUndefined
      then Some \<lparr>dataPath = dp, message = ''Missing required property: '' @ k\<rparr>
      else check_required dp ob ks)"

fun first_error :: "tv4_error option list \<Rightarrow> tv4_error option" where
  "first_error [] = None"
| "first_error (None # es) = first_error es"
| "first_error (Some e # es) = Some e"

function tv4_check :: "heap \<Rightarrow> string \<Rightarrow> val \<Rightarrow> schema \<Rightarrow> tv4_error option" where
  "tv4_check h dp v (Schema ty props rq) =
     (case check_type dp v ty of
        Some e \<Rightarrow> Some e
      | None \<Rightarrow>
          (case v of
             VRef a \<Rightarrow>
               (case check_required dp (deref h a) (case rq of None \<Rightarrow> [] | Some ks \<Rightarrow> ks) of
                  Some e \<Rightarrow> Some e
                | None \<Rightarrow>
                    first_error
                      (map (\<lambda>ks. case deref h a (fst ks) of
                                    None \<Rightarrow> None
                                  | Some x \<Rightarrow>
                                      tv4_check h
                                        (dp @ ''/''
                                         @ replace_all ''/'' ''~1'' (replace_all ''~'' ''~0'' (fst ks)))
                                        x (snd ks))
                         (case props of None \<Rightarrow> [] | Some ps \<Rightarrow> ps)))
           | _ \<Rightarrow> None))"
  by pat_completeness auto
termination
proof -
  have le: "size sch < Suc (Suc (sum_list (map (size_prod (\<lambda>x. 0) size) ps)))"
    if "(k, sch) \<in> set ps" for ps :: "(string \<times> schema) list" and k sch
    using that by (induction ps) auto
  show ?thesis
    by (relation "measure (\<lambda>(h, dp, v, sch). size sch)")
       (auto split: option.splits simp: size_list_conv_sum_list dest: le)
qed

declare tv4_check.simps [simp del]

definition tv4_default :: "heap \<Rightarrow> val \<Rightarrow> schema \<Rightarrow> tv4_error option" where
  "tv4_default h v sch = tv4_check h [] v sch"

text \<open>
  Modelled from the spec: the templater is the library \<^verbatim>\<open>mustache\<close>, which the repository
  imports and does not contain. This is the substitution of named variables: \<^verbatim>\<open>{{name}}\<close>
  is replaced by the HTML-escaped text of the view's member \<^verbatim>\<open>name\<close>, \<^verbatim>\<open>{{{name}}}\<close> and
  \<^verbatim>\<open>{{&name}}\<close> by its text as it is, an absent or \<^verbatim>\<open>null\<close> member by nothing. An
  unclosed tag is an exception. Tags of any other kind (sections, comments, partials,
  delimiter changes) and dotted names are outside this fragment and are reported as \<open>None\<close>
  as well.
\<close>

definition escapeHtml :: "string \<Rightarrow> string" where
  "escapeHtml s =
     concat (map (\<lambda>c.
       if c = CHR ''&'' then ''&amp;''
       else if c = CHR ''<'' then ''&lt;''
       else if c = CHR ''>'' then ''&gt;''
       else if c = CHR 0x22 then ''&quot;''
       else if c = CHR 0x27 then ''&#39;''
       else if c = CHR ''/'' then ''&#x2F;''
       else if c = CHR 0x60 then ''&#x60;''
       else if c = CHR ''='' then ''&#x3D;''
       else [c]) s)"

text \<open>The text before the first occurrence of a pattern, and the text after it.\<close>

fun split_at :: "string \<Rightarrow> string \<Rightarrow> (string \<times> string) option" where
  "split_at pat [] = (if pat = [] then Some ([], []) else None)"
| "split_at pat (c # cs) =
     (if take (length pat) (c # cs) = pat then Some ([], drop (length pat) (c # cs))
      else map_option (\<lambda>ab. (c # fst ab, snd ab)) (split_at pat cs))"

definition view_lookup :: "heap \<Rightarrow> val \<Rightarrow> string \<Rightarrow> val option" where
  "view_lookup h view name =
     (if name = ''.'' then Some view
      else if CHR ''.'' \<in> set name then None
      else if js_in h view name = Some True then Some (get_member h view name)
      else Some VUndefined)"

definition render_value :: "bool \<Rightarrow> val \<Rightarrow> string" where
  "render_value escaped v =
     (if v = VUndefined \<or> v = VNull then []
      else if escaped then escapeHtml (to_string v) else to_string v)"

definition render_tag :: "heap \<Rightarrow> val \<Rightarrow> bool \<Rightarrow> string \<Rightarrow> string option" where
  "render_tag h view escaped name =
     map_option (render_value escaped) (view_lookup h view (trim name))"

text \<open>The scan of a template, given what a tag renders to (\<open>tag escaped name\<close>).\<close>

function render_with :: "(bool \<Rightarrow> string \<Rightarrow> string option) \<Rightarrow> string \<Rightarrow> string option" where
  "render_with tag tpl =
     (case split_at ''{{'' tpl of
        None \<Rightarrow> Some tpl
      | Some (text, rest) \<Rightarrow>
          if take 1 rest = ''{'' then
            (case split_at ''}}}'' (drop 1 rest) of
               None \<Rightarrow> None
             | Some (name, rest') \<Rightarrow>
                 (case (tag False name, render_with tag rest') of
                    (Some x, Some r) \<Rightarrow> Some (text @ x @ r)
                  | _ \<Rightarrow> None))
          else
            (case split_at ''}}'' rest of
               None \<Rightarrow> None
             | Some (name, rest') \<Rightarrow>
                 if take 1 (trim name) = ''&'' then
                   (case (tag False (drop 1 (trim name)), render_with tag rest') of
                      (Some x, Some r) \<Rightarrow> Some (text @ x @ r)
                    | _ \<Rightarrow> None)
                 else if trim name = [] \<or> hd (trim name) \<in> set ''#^/>=!'' then None
                 else
                   (case (tag True name, render_with tag rest') of
                      (Some x, Some r) \<Rightarrow> Some (text @ x @ r)
                    | _ \<Rightarrow> None)))"
  by pat_completeness auto
termination
proof -
  have len: "length a + length pat + length b = length s" if "split_at pat s = Some (a, b)"
    for pat s a b
    using that
  proof (induction s arbitrary: a)
    case Nil
    then show ?case by (auto split: if_splits)
  next
    case (Cons c cs)
    show ?case
    proof (cases "take (length pat) (c # cs) = pat")
      case True
      then have "length (take (length pat) (c # cs)) = length pat" by simp
      then have "length pat \<le> length (c # cs)" by (simp only: length_take)
      with True Cons.prems show ?thesis by auto
    next
      case False
      with Cons.prems obtain a' where "split_at pat cs = Some (a', b)" "a = c # a'" by auto
      with Cons.IH show ?thesis by auto
    qed
  qed
  show ?thesis
    by (relation "measure (\<lambda>(tag, tpl). length tpl)") (auto dest!: len)
qed

declare render_with.simps [simp del]

definition mustache_default :: "heap \<Rightarrow> string \<Rightarrow> val \<Rightarrow> string option" where
  "mustache_default h tpl view = render_with (render_tag h view) tpl"

definition default_depends :: depends where
  "default_depends = \<lparr>tv4_validate = tv4_default, mustache_render = mustache_default\<rparr>"

section \<open>Notions used in the statements\<close>

text \<open>A value refers into the store: every address a caller holds is one of the store.\<close>

definition allocated :: "heap \<Rightarrow> val \<Rightarrow> bool" where
  "allocated h v = (case v of VRef a \<Rightarrow> a < length h | _ \<Rightarrow> True)"

text \<open>\<^verbatim>\<open>typeof v === 'string'\<close>\<close>

definition is_string :: "val \<Rightarrow> bool" where
  "is_string v = (case v of VStr s \<Rightarrow> True | _ \<Rightarrow> False)"

text \<open>The headers object as \<^verbatim>\<open>request\<close> leaves it: the fresh \<^verbatim>\<open>{}\<close>, with the token of the
  client when that is a non-empty string.\<close>

definition token_headers :: "client \<Rightarrow> obj" where
  "token_headers c =
     (case token c of
        None \<Rightarrow> Map.empty
      | Some t \<Rightarrow> if t \<noteq> [] then [''X-Vault-Token'' \<mapsto> VStr t] else Map.empty)"

text \<open>
  The query string as the specification words it: for every property name the query schema
  declares, in declaration order, that is also a key of the body, a pair
  \<^verbatim>\<open>name=urlEncode(value)\<close>; the pairs joined with \<^verbatim>\<open>&\<close> after a \<^verbatim>\<open>?\<close>, and nothing at all
  when there is no pair.
\<close>

definition query_string_spec :: "string list \<Rightarrow> obj \<Rightarrow> string" where
  "query_string_spec declared json =
     (let pairs = map (\<lambda>name. name @ ''='' @ encodeURIComponent (to_string (get_prop json name)))
                    (filter (\<lambda>name. name \<in> dom json) declared)
      in if pairs = [] then [] else ''?'' @ join ''&'' pairs)"

section \<open>Concrete clients, descriptors and stores of the examples\<close>

definition plain_client :: client where
  "plain_client =
     new_client
       \<lparr>cfg_apiVersion = None, cfg_endpoint = None, cfg_token = None,
          cfg_requestOptions = VUndefined\<rparr>
       \<lparr>VAULT_ADDR = None, VAULT_TOKEN = None\<rparr>"

definition abc_client :: client where
  "abc_client =
     new_client
       \<lparr>cfg_apiVersion = None, cfg_endpoint = None, cfg_token = Some ''abc'',
          cfg_requestOptions = VUndefined\<rparr>
       \<lparr>VAULT_ADDR = None, VAULT_TOKEN = None\<rparr>"

text \<open>A client whose default request options are the object at address 0.\<close>

definition defaults_client :: client where
  "defaults_client =
     new_client
       \<lparr>cfg_apiVersion = None, cfg_endpoint = None, cfg_token = Some ''abc'',
          cfg_requestOptions = VRef 0\<rparr>
       \<lparr>VAULT_ADDR = None, VAULT_TOKEN = None\<rparr>"

definition secret_descriptor :: descriptor where
  "secret_descriptor =
     \<lparr>http_method = ''GET'', path = ''/secret/{{name}}'', schema = None,
        requestOptions = VUndefined\<rparr>"

text \<open>One object \<^verbatim>\<open>{name: "foo/bar"}\<close>, the argument of a call.\<close>

definition foo_bar_state :: state where
  "foo_bar_state = \<lparr>store = [[''name'' \<mapsto> VStr ''foo/bar'']], sent = []\<rparr>"

text \<open>The body \<^verbatim>\<open>{name: "foo/bar"}\<close> and the options
  \<^verbatim>\<open>{path: "/secret/{{name}}", method: "GET", json: body}\<close> of a request.\<close>

definition secret_request_state :: state where
  "secret_request_state =
     \<lparr>store = [[''name'' \<mapsto> VStr ''foo/bar''],
                [''path'' \<mapsto> VStr ''/secret/{{name}}'', ''method'' \<mapsto> VStr ''GET'',
                 ''json'' \<mapsto> VRef 0]],
        sent = []\<rparr>"

text \<open>One object \<^verbatim>\<open>{path: "/x", method: "GET"}\<close>, the options of a request.\<close>

definition get_state :: state where
  "get_state = \<lparr>store = [[''path'' \<mapsto> VStr ''/x'', ''method'' \<mapsto> VStr ''GET'']], sent = []\<rparr>"

text \<open>One object \<^verbatim>\<open>{path: "/x", method: "PATCH"}\<close>.\<close>

definition patch_state :: state where
  "patch_state =
     \<lparr>store = [[''path'' \<mapsto> VStr ''/x'', ''method'' \<mapsto> VStr ''PATCH'']], sent = []\<rparr>"

text \<open>One object \<^verbatim>\<open>{method: "GET"}\<close>, options without a path.\<close>

definition pathless_state :: state where
  "pathless_state = \<lparr>store = [[''method'' \<mapsto> VStr ''GET'']], sent = []\<rparr>"



text \<open>A descriptor whose request schema requires a string \<^verbatim>\<open>name\<close>, and the empty argument
  object \<^verbatim>\<open>{}\<close>.\<close>

definition named_descriptor :: descriptor where
  "named_descriptor =
     \<lparr>http_method = ''GET'', path = ''/secret/{{name}}'',
      schema = Some \<lparr>req = Some (Schema (Some ''object'')
                                    (Some [(''name'', Schema (Some ''string'') None None)])
                                    (Some [''name''])),
                     query = None\<rparr>,
      requestOptions = VUndefined\<rparr>"

definition empty_args_state :: state where
  "empty_args_state = \<lparr>store = [Map.empty], sent = []\<rparr>"

text \<open>The options \<^verbatim>\<open>{inherit: false, path: "/x", method: "GET"}\<close> of a request.\<close>

definition no_inherit_state :: state where
  "no_inherit_state =
     \<lparr>store = [[''inherit'' \<mapsto> VBool False, ''path'' \<mapsto> VStr ''/x'', ''method'' \<mapsto> VStr ''GET'']],
        sent = []\<rparr>"

text \<open>Client defaults \<^verbatim>\<open>{timeout: 5}\<close> at address 0; the argument object
  \<^verbatim>\<open>{requestOptions: {inherit: false}}\<close> at address 1, its \<^verbatim>\<open>requestOptions\<close> at address 2.\<close>

definition opt_out_state :: state where
  "opt_out_state =
     \<lparr>store = [[''timeout'' \<mapsto> VNum 5], [''requestOptions'' \<mapsto> VRef 2],
                [''inherit'' \<mapsto> VBool False]],
        sent = []\<rparr>"

text \<open>The same client defaults; the argument object \<^verbatim>\<open>{requestOptions: {timeout: 9}}\<close>.\<close>

definition override_state :: state where
  "override_state =
     \<lparr>store = [[''timeout'' \<mapsto> VNum 5, ''retries'' \<mapsto> VNum 2], [''requestOptions'' \<mapsto> VRef 2],
                [''timeout'' \<mapsto> VNum 9]],
        sent = []\<rparr>"

definition status_descriptor :: descriptor where
  "status_descriptor =
     \<lparr>http_method = ''GET'', path = ''/sys/seal-status'', schema = None,
        requestOptions = VUndefined\<rparr>"

text \<open>The path a generated operation hands to the request operation: the descriptor's,
  followed by the query string when the descriptor declares a query schema.\<close>

definition call_path :: "descriptor \<Rightarrow> obj \<Rightarrow> string" where
  "call_path d json =
     (case schema d of
        None \<Rightarrow> path d
      | Some sc \<Rightarrow>
          (case query sc of
             None \<Rightarrow> path d
           | Some qs \<Rightarrow>
               (case s_properties qs of
                  None \<Rightarrow> path d
                | Some props \<Rightarrow> path d @ query_string_spec (map fst props) json)))"

text \<open>The options of a call before the client's defaults are merged in: the descriptor's
  request options, over them those of the arguments, over them method, path and body.\<close>

definition per_call_options :: "descriptor \<Rightarrow> heap \<Rightarrow> addr \<Rightarrow> obj" where
  "per_call_options d h args =
     own_props h (requestOptions d)
     ++ own_props h (get_prop (deref h args) ''requestOptions'')
     ++ [''method'' \<mapsto> VStr (http_method d), ''path'' \<mapsto> VStr (call_path d (deref h args)),
         ''json'' \<mapsto> VRef args]"

text \<open>The merge the request operation works on, for a generated operation: the client's
  default request options below the options of the call, and left out when the options of
  the call set \<^verbatim>\<open>inherit\<close> to \<^verbatim>\<open>false\<close>.\<close>

definition merged_options :: "client \<Rightarrow> descriptor \<Rightarrow> heap \<Rightarrow> addr \<Rightarrow> obj" where
  "merged_options c d h args =
     (if get_prop (per_call_options d h args) ''inherit'' = VBool False then Map.empty
      else own_props h (cfg_requestOptions (config c)))
     ++ per_call_options d h args"

text \<open>
  Two values, each in its store, denote the same document: equal atoms, arrays of equal
  length whose elements denote the same documents, allocated objects with the same keys
  whose properties denote the same documents. The addresses themselves need not agree.
  A value denotes the same document as itself exactly when it is plain data of its store:
  a finite tree with no dangling address.
\<close>

inductive same_doc :: "heap \<Rightarrow> heap \<Rightarrow> val \<Rightarrow> val \<Rightarrow> bool" for h h' where
  sd_undefined: "same_doc h h' VUndefined VUndefined"
| sd_null: "same_doc h h' VNull VNull"
| sd_bool: "same_doc h h' (VBool b) (VBool b)"
| sd_num: "same_doc h h' (VNum n) (VNum n)"
| sd_str: "same_doc h h' (VStr s) (VStr s)"
| sd_arr: "list_all2 (same_doc h h') xs ys \<Longrightarrow> same_doc h h' (VArr xs) (VArr ys)"
| sd_ref: "a < length h \<Longrightarrow> a' < length h' \<Longrightarrow> dom (h ! a) = dom (h' ! a') \<Longrightarrow>
           (\<forall>k v v'. (h ! a) k = Some v \<longrightarrow> (h' ! a') k = Some v' \<longrightarrow> same_doc h h' v v') \<Longrightarrow>
           same_doc h h' (VRef a) (VRef a')"

definition plain_data :: "heap \<Rightarrow> val \<Rightarrow> bool" where
  "plain_data h v = same_doc h h v v"

text \<open>A library function reads the document its argument denotes and nothing else of the
  store: on two arguments that denote the same document it answers the same.\<close>

definition content_only :: "(heap \<Rightarrow> val \<Rightarrow> 'a) \<Rightarrow> bool" where
  "content_only f = (\<forall>h h' v v'. same_doc h h' v v' \<longrightarrow> f h v = f h' v')"

section \<open>The response interpreter: properties\<close>












section \<open>The store under the merging helpers\<close>

lemma deref_append [simp]: "a < length h \<Longrightarrow> deref (h @ xs) a = deref h a"
  by (simp add: deref_def nth_append)

lemma deref_append_new [simp]: "deref (h @ ob # xs) (length h) = ob"
  by (simp add: deref_def)

lemma deref_update: "deref (h[t := x]) a = (if a = t \<and> t < length h then x else deref h a)"
  by (simp add: deref_def)

lemma own_props_append [simp]: "allocated h v \<Longrightarrow> own_props (h @ xs) v = own_props h v"
  by (cases v) (simp_all add: own_props_def allocated_def)

lemma own_props_update: "v \<noteq> VRef t \<Longrightarrow> own_props (h[t := x]) v = own_props h v"
  by (cases v) (simp_all add: own_props_def deref_update)

lemma length_object_assign [simp]: "length (object_assign h t srcs) = length h"
  by (induction srcs arbitrary: h) simp_all

lemma map_add_twice: "m ++ n ++ m ++ n = m ++ (n :: 'a \<rightharpoonup> 'b)"
  by (rule ext) (simp add: map_add_def split: option.splits)

text \<open>\<^verbatim>\<open>defaults(obj, vals)\<close> writes every property of \<^verbatim>\<open>vals\<close> over the one \<^verbatim>\<open>obj\<close> has: the
  third argument of its \<^verbatim>\<open>Object.assign\<close> is the target itself, read after the copy.\<close>

lemma defaults_target:
  "ob < length h \<Longrightarrow> vals \<noteq> ob \<Longrightarrow>
   deref (defaults h ob vals) ob = deref h ob ++ deref h vals"
  by (simp add: defaults_def deref_update assign_props_def own_props_def map_add_twice)

lemma defaults_other: "a \<noteq> ob \<Longrightarrow> deref (defaults h ob vals) a = deref h a"
  by (simp add: defaults_def deref_update)

lemma defaults_headers:
  "ob < length h \<Longrightarrow> vals \<noteq> ob \<Longrightarrow> deref h vals ''headers'' = Some (VRef hdrs) \<Longrightarrow>
   get_prop (deref (defaults h ob vals) ob) ''headers'' = VRef hdrs"
  by (simp add: defaults_target get_prop_def)

section \<open>The request operation: its working object and its result\<close>

lemma inherit_options_false:
  "get_prop (deref h a) ''inherit'' = VBool False \<Longrightarrow> inherit_options c h a = (h, a)"
  by (simp add: inherit_options_def)

lemma inherit_options_merge:
  assumes "get_prop (deref h a) ''inherit'' \<noteq> VBool False" "a < length h"
    "allocated h (cfg_requestOptions (config c))"
  shows "inherit_options c h a =
     (h @ [own_props h (cfg_requestOptions (config c)) ++ deref h a], length h)"
proof -
  have ne: "cfg_requestOptions (config c) \<noteq> VRef (length h)"
    using assms(3) by (auto simp: allocated_def)
  show ?thesis
    using assms ne
    by (simp add: inherit_options_def alloc_def assign_props_def own_props_update
        own_props_def[of _ "VRef a"] deref_update)
qed

lemma working_options_false:
  "get_prop (deref h a) ''inherit'' = VBool False \<Longrightarrow>
   working_options c h a = (h[a := del_prop (deref h a) ''inherit''], a)"
  by (simp add: working_options_def inherit_options_false)

lemma working_options_merge:
  assumes "get_prop (deref h a) ''inherit'' \<noteq> VBool False" "a < length h"
    "allocated h (cfg_requestOptions (config c))"
  shows "working_options c h a =
     (h @ [del_prop (own_props h (cfg_requestOptions (config c)) ++ deref h a) ''inherit''],
      length h)"
  using assms by (simp add: working_options_def inherit_options_merge)

lemma working_options_bounds:
  assumes "working_options c h a = (h2, options)" "a < length h"
  shows "options < length h2 \<and> length h \<le> length h2"
  using assms
  by (auto simp: working_options_def inherit_options_def alloc_def split: if_splits)

lemma request_run:
  assumes w: "working_options c (store s) a = (h2, options)" and lt: "options < length h2"
  shows "request c dep s (Some a) =
     (case tv4_validate dep h2 (VRef options) requestSchema of
        Some e \<Rightarrow> (Rejected (SchemaError e), s\<lparr>store := h2\<rparr>)
      | None \<Rightarrow>
          (case mustache_render dep h2
                  (endpoint c @ ''/'' @ apiVersion c
                   @ to_string (get_prop (deref h2 options) ''path''))
                  (get_prop (deref h2 options) ''json'') of
             None \<Rightarrow> (Thrown RenderError, s\<lparr>store := h2\<rparr>)
           | Some r \<Rightarrow>
               (Dispatched options,
                \<lparr>store = (h2 @ [token_headers c,
                                  [''uri'' \<mapsto> VStr (replace_all ''&#x2F;'' ''/'' r),
                                   ''headers'' \<mapsto> VRef (length h2)]])
                          [options := deref h2 options
                             ++ [''uri'' \<mapsto> VStr (replace_all ''&#x2F;'' ''/'' r),
                                 ''headers'' \<mapsto> VRef (length h2)]],
                   sent = sent s @ [options]\<rparr>)))"
proof -
  have d: "defaults (h2 @ [Map.empty, vals]) options (Suc (length h2))
        = (h2 @ [Map.empty, vals])[options := deref h2 options ++ vals]" for vals
    using lt
    by (simp add: defaults_def assign_props_def own_props_def deref_update map_add_twice
        deref_def nth_append)
  show ?thesis
    using lt
    apply (simp add: request_def w alloc_def Let_def d split: option.splits)
    apply (auto simp: token_headers_def deref_update get_prop_def deref_def nth_append
        set_prop_def list_update_append list_update_swap)
    done
qed

lemma request_None:
  "request c dep s None =
   request c dep (s\<lparr>store := store s @ [Map.empty]\<rparr>) (Some (length (store s)))"
  by (simp add: request_def alloc_def split: prod.splits option.splits)

section \<open>The default validator on the request schema\<close>

lemma tv4_string_schema:
  "tv4_check h dp v (Schema (Some ''string'') None None) = None \<longleftrightarrow> is_string v"
  by (cases v) (simp_all add: tv4_check.simps check_type_def json_type_def is_string_def)

lemma tv4_requestSchema:
  "tv4_default h (VRef a) requestSchema = None \<longleftrightarrow>
     is_string (get_prop (deref h a) ''path'') \<and> is_string (get_prop (deref h a) ''method'')"
proof -
  have fe: "first_error [x, y] = None \<longleftrightarrow> x = None \<and> y = None" for x y
    by (cases x; cases y) simp_all
  show ?thesis
    unfolding tv4_default_def requestSchema_def
    apply (subst tv4_check.simps)
    apply (simp add: check_type_def json_type_def fe tv4_string_schema split: option.splits)
    apply (auto simp: get_prop_def is_string_def split: option.splits)
    done
qed

section \<open>Replacing every occurrence\<close>

lemma contains_Cons:
  "pat \<noteq> [] \<Longrightarrow> c \<notin> set pat \<Longrightarrow> contains pat (c # s) = contains pat s"
proof -
  assume p: "pat \<noteq> []" and c: "c \<notin> set pat"
  have "take (length pat) (c # s) \<noteq> pat"
  proof
    assume "take (length pat) (c # s) = pat"
    with p have "c \<in> set pat" by (cases pat) auto
    with c show False by simp
  qed
  then show ?thesis by simp
qed

lemma contains_foreign_prefix:
  "pat \<noteq> [] \<Longrightarrow> set rep \<inter> set pat = {} \<Longrightarrow> contains pat (rep @ s) = contains pat s"
proof (induction rep)
  case Nil
  then show ?case by simp
next
  case (Cons a rep)
  then have "contains pat (a # (rep @ s)) = contains pat (rep @ s)"
    by (intro contains_Cons) auto
  with Cons show ?case by (simp del: contains.simps)
qed

lemma take_replace_all:
  "rep \<noteq> [] \<Longrightarrow> set rep \<inter> set w = {} \<Longrightarrow> take m (replace_all pat rep s) = w \<Longrightarrow>
   take m s = w"
proof (induction s arbitrary: m w)
  case Nil
  then show ?case by simp
next
  case (Cons c cs)
  show ?case
  proof (cases m)
    case 0
    with Cons.prems show ?thesis by simp
  next
    case (Suc m')
    show ?thesis
    proof (cases "pat \<noteq> [] \<and> take (length pat) (c # cs) = pat")
      case True
      with Cons.prems(3) Suc
      have "take (Suc m') (rep @ replace_all pat rep (drop (length pat) (c # cs))) = w"
        by simp
      with Cons.prems(1) have "hd rep \<in> set w" by (cases rep) auto
      with Cons.prems(1,2) show ?thesis by (cases rep) auto
    next
      case False
      with Cons.prems(3) Suc have w: "c # take m' (replace_all pat rep cs) = w" by auto
      then obtain w' where w': "w = c # w'" "take m' (replace_all pat rep cs) = w'" by auto
      with Cons.prems(2) have "set rep \<inter> set w' = {}" by auto
      from Cons.IH [OF Cons.prems(1) this w'(2)] w'(1) Suc show ?thesis by simp
    qed
  qed
qed

text \<open>After the replacement no occurrence of the pattern is left, when the replacement
  shares no character with it.\<close>

lemma replace_all_leaves_none:
  "pat \<noteq> [] \<Longrightarrow> rep \<noteq> [] \<Longrightarrow> set rep \<inter> set pat = {} \<Longrightarrow>
   \<not> contains pat (replace_all pat rep s)"
proof (induction pat rep s rule: replace_all.induct)
  case (1 pat rep)
  then show ?case by simp
next
  case (2 pat rep c cs)
  show ?case
  proof (cases "pat \<noteq> [] \<and> take (length pat) (c # cs) = pat")
    case True
    with 2 show ?thesis by (simp add: contains_foreign_prefix)
  next
    case False
    with 2 have ih: "\<not> contains pat (replace_all pat rep cs)" by simp
    have "take (length pat) (c # replace_all pat rep cs) \<noteq> pat"
    proof
      assume t: "take (length pat) (c # replace_all pat rep cs) = pat"
      from 2(3) obtain p ps where pat: "pat = p # ps" by (cases pat) auto
      with t have "p = c" "take (length ps) (replace_all pat rep cs) = ps" by auto
      moreover from 2(5) pat have "set rep \<inter> set ps = {}" by auto
      ultimately have "take (length ps) cs = ps" using take_replace_all [OF 2(4)] by blast
      with \<open>p = c\<close> pat have "take (length pat) (c # cs) = pat" by simp
      with False 2(3) show False by simp
    qed
    with ih False show ?thesis by auto
  qed
qed

section \<open>Structural validation of the options\<close>

text \<open>
  C2, as the source has it. The options \<^verbatim>\<open>request\<close> works on are rejected with the
  validator's own error, unchanged, and nothing is sent, exactly when the validator refuses
  them against \<^verbatim>\<open>requestSchema\<close>; otherwise the call does not fail with a validation error.
  The default validator refuses them exactly when \<^verbatim>\<open>path\<close> or \<^verbatim>\<open>method\<close> is not a string;
  the schema lists no admissible methods.
\<close>

theorem request_structural_validation:
  assumes "working_options c (store s) a = (h2, options)" and "a < length (store s)"
  shows "(\<forall>e. tv4_validate dep h2 (VRef options) requestSchema = Some e \<longrightarrow>
            request c dep s (Some a) = (Rejected (SchemaError e), s\<lparr>store := h2\<rparr>))
       \<and> (tv4_validate dep h2 (VRef options) requestSchema = None \<longrightarrow>
            (\<forall>e. fst (request c dep s (Some a)) \<noteq> Rejected (SchemaError e)))
       \<and> (tv4_default h2 (VRef options) requestSchema = None \<longleftrightarrow>
            is_string (get_prop (deref h2 options) ''path'')
            \<and> is_string (get_prop (deref h2 options) ''method''))"
proof -
  from working_options_bounds [OF assms] have lt: "options < length h2" by simp
  show ?thesis
    by (auto simp: request_run [OF assms(1) lt] tv4_requestSchema split: option.splits)
qed

theorem request_structural_validation_witness:
  "request plain_client default_depends pathless_state (Some 0)
     = (Rejected (SchemaError \<lparr>dataPath = [], message = ''Missing required property: path''\<rparr>),
        pathless_state\<lparr>store := fst (working_options plain_client (store pathless_state) 0)\<rparr>)
 \<and> sent (snd (request plain_client default_depends pathless_state (Some 0))) = []"
proof -
  let ?w = "working_options plain_client (store pathless_state) 0"
  have "snd ?w = 1" by code_simp
  then have w: "?w = (fst ?w, 1)" by (simp add: prod_eq_iff)
  have a: "0 < length (store pathless_state)" by (simp add: pathless_state_def)
  have v: "tv4_validate default_depends (fst ?w) (VRef 1) requestSchema
      = Some \<lparr>dataPath = [], message = ''Missing required property: path''\<rparr>"
    by code_simp
  from request_structural_validation [OF w a, of default_depends] v
  have "request plain_client default_depends pathless_state (Some 0)
     = (Rejected (SchemaError \<lparr>dataPath = [], message = ''Missing required property: path''\<rparr>),
        pathless_state\<lparr>store := fst ?w\<rparr>)"
    by blast
  then show ?thesis by (simp add: pathless_state_def)
qed

text \<open>
  The claim as the specification words it fails: the options \<^verbatim>\<open>{path: "/x", method: "PATCH"}\<close>
  pass the validation and are handed to the transport.
\<close>

theorem request_dispatches_unlisted_method:
  "fst (request plain_client default_depends patch_state (Some 0)) = Dispatched 1
 \<and> sent (snd (request plain_client default_depends patch_state (Some 0))) = [1]
 \<and> get_prop (deref (store (snd (request plain_client default_depends patch_state (Some 0)))) 1)
      ''method'' = VStr ''PATCH''
 \<and> ''PATCH'' \<notin> set [''GET'', ''POST'', ''PUT'', ''DELETE'', ''LIST'']"
  by code_simp

section \<open>The rendered address\<close>

text \<open>
  C4. When the options pass the structural validation and the templater renders the template
  \<^verbatim>\<open>endpoint/apiVersion + path\<close> against the body \<^verbatim>\<open>options.json\<close>, the request is sent and
  its \<^verbatim>\<open>uri\<close> is the rendered text with every \<^verbatim>\<open>&#x2F;\<close> replaced by \<^verbatim>\<open>/\<close>: no
  \<^verbatim>\<open>&#x2F;\<close> is left in it. In particular the operation of the descriptor with the
  template \<^verbatim>\<open>/secret/{{name}}\<close>, called with \<^verbatim>\<open>{name: "foo/bar"}\<close> on a client with the
  default endpoint, is sent to an address ending in \<^verbatim>\<open>/secret/foo/bar\<close>.
\<close>

theorem request_uri_rendered:
  assumes "working_options c (store s) a = (h2, options)"
    and "a < length (store s)"
    and "tv4_validate dep h2 (VRef options) requestSchema = None"
    and "mustache_render dep h2
           (endpoint c @ ''/'' @ apiVersion c @ to_string (get_prop (deref h2 options) ''path''))
           (get_prop (deref h2 options) ''json'') = Some r"
  shows "(\<exists>s'. request c dep s (Some a) = (Dispatched options, s')
            \<and> deref (store s') options ''uri'' = Some (VStr (replace_all ''&#x2F;'' ''/'' r)))
       \<and> \<not> contains ''&#x2F;'' (replace_all ''&#x2F;'' ''/'' r)
       \<and> fst (operation plain_client default_depends secret_descriptor foo_bar_state (Some 0))
           = Dispatched 3
       \<and> get_prop (deref (store (snd (operation plain_client default_depends secret_descriptor
                                          foo_bar_state (Some 0)))) 3) ''uri''
           = VStr ''http://127.0.0.1:8200/v1/secret/foo/bar''"
proof -
  from working_options_bounds [OF assms(1,2)] have lt: "options < length h2" by simp
  have 1: "\<exists>s'. request c dep s (Some a) = (Dispatched options, s')
            \<and> deref (store s') options ''uri'' = Some (VStr (replace_all ''&#x2F;'' ''/'' r))"
    using lt assms(3,4) by (simp add: request_run [OF assms(1) lt] deref_update)
  have 2: "\<not> contains ''&#x2F;'' (replace_all ''&#x2F;'' ''/'' r)"
    by (rule replace_all_leaves_none) simp_all
  have 3: "fst (operation plain_client default_depends secret_descriptor foo_bar_state (Some 0))
           = Dispatched 3"
    by code_simp
  have 4: "get_prop (deref (store (snd (operation plain_client default_depends secret_descriptor
                                          foo_bar_state (Some 0)))) 3) ''uri''
           = VStr ''http://127.0.0.1:8200/v1/secret/foo/bar''"
    by code_simp
  from 1 2 3 4 show ?thesis by blast
qed

theorem request_uri_rendered_witness:
  "\<exists>s'. request plain_client default_depends secret_request_state (Some 1) = (Dispatched 2, s')
        \<and> deref (store s') 2 ''uri'' = Some (VStr ''http://127.0.0.1:8200/v1/secret/foo/bar'')"
proof -
  let ?w = "working_options plain_client (store secret_request_state) 1"
  have "snd ?w = 2" by code_simp
  then have w: "?w = (fst ?w, 2)" by (simp add: prod_eq_iff)
  have a: "1 < length (store secret_request_state)" by (simp add: secret_request_state_def)
  have v: "tv4_validate default_depends (fst ?w) (VRef 2) requestSchema = None"
    by code_simp
  have r: "mustache_render default_depends (fst ?w)
           (endpoint plain_client @ ''/'' @ apiVersion plain_client
            @ to_string (get_prop (deref (fst ?w) 2) ''path''))
           (get_prop (deref (fst ?w) 2) ''json'') = Some ''http://127.0.0.1:8200/v1/secret/foo&#x2F;bar''"
    by code_simp
  have u: "replace_all ''&#x2F;'' ''/'' ''http://127.0.0.1:8200/v1/secret/foo&#x2F;bar''
      = ''http://127.0.0.1:8200/v1/secret/foo/bar''"
    by code_simp
  from request_uri_rendered [OF w a v r] show ?thesis unfolding u by blast
qed

section \<open>The headers and the token\<close>



section \<open>The options of a generated operation\<close>

lemma object_assign_append:
  "object_assign h t (xs @ ys) = object_assign (object_assign h t xs) t ys"
  by (induction xs arbitrary: h) simp_all

lemma object_assign_only_target: "object_assign h t srcs = h[t := object_assign h t srcs ! t]"
proof (induction srcs arbitrary: h)
  case Nil
  then show ?case by simp
next
  case (Cons v srcs)
  let ?h' = "h[t := assign_props (deref h t) (own_props h v)]"
  have "object_assign ?h' t srcs = ?h'[t := object_assign ?h' t srcs ! t]" by (rule Cons.IH)
  then show ?case by simp
qed

lemma object_assign_other: "a \<noteq> t \<Longrightarrow> deref (object_assign h t srcs) a = deref h a"
  by (subst object_assign_only_target) (simp add: deref_update)

lemma object_assign_last:
  assumes "t < length h" "l \<noteq> t"
  shows "deref (object_assign h t (srcs @ [VRef l])) t
           = deref (object_assign h t srcs) t ++ deref h l"
  using assms
  by (simp add: object_assign_append deref_update assign_props_def own_props_def
      object_assign_other)

lemma call_options_shape:
  "\<exists>m. call_options d h args = (h @ [m ++ call_literal d args, call_literal d args], length h)"
proof -
  let ?H = "h @ [Map.empty, call_literal d args]"
  let ?srcs = "[requestOptions d, get_prop (deref ?H args) ''requestOptions'']"
  let ?R = "object_assign ?H (length h) (?srcs @ [VRef (Suc (length h))])"
  have "?R = ?H[length h := ?R ! length h]" by (rule object_assign_only_target)
  moreover have "?R ! length h = deref ?R (length h)" by (simp add: deref_def)
  moreover have "deref ?R (length h)
      = deref (object_assign ?H (length h) ?srcs) (length h) ++ deref ?H (Suc (length h))"
    by (rule object_assign_last) simp_all
  moreover have "deref ?H (Suc (length h)) = call_literal d args"
    by (simp add: deref_def nth_append)
  ultimately have "?R = h @ [deref (object_assign ?H (length h) ?srcs) (length h)
                              ++ call_literal d args, call_literal d args]"
    by (simp add: list_update_append)
  then show ?thesis by (auto simp: call_options_def alloc_def)
qed

lemma call_options_eq:
  assumes "args < length h" "allocated h (requestOptions d)"
    "allocated h (get_prop (deref h args) ''requestOptions'')"
  shows "call_options d h args =
     (h @ [own_props h (requestOptions d)
           ++ own_props h (get_prop (deref h args) ''requestOptions'')
           ++ call_literal d args, call_literal d args], length h)"
proof -
  have ne: "requestOptions d \<noteq> VRef (length h)"
    "get_prop (deref h args) ''requestOptions'' \<noteq> VRef (length h)"
    using assms(2,3) by (auto simp: allocated_def)
  have al: "allocated (h @ [x]) v" if "allocated h v" for x v
    using that by (cases v) (auto simp: allocated_def)
  show ?thesis
    using assms ne
    by (simp add: call_options_def alloc_def assign_props_def own_props_update deref_update
        own_props_def [of _ "VRef (Suc (length h))"] deref_def [of _ "Suc (length h)"]
        nth_append list_update_append)
qed


lemma operation_Some:
  assumes "call_options d (store s) args = (h3, options)"
  shows "operation c dep d s (Some args) =
     (case schema d of
        None \<Rightarrow> request c dep (s\<lparr>store := h3\<rparr>) (Some options)
      | Some sc \<Rightarrow>
          (case validate dep h3 (VRef args) (req sc) of
             Some e \<Rightarrow> (Rejected e, s\<lparr>store := h3\<rparr>)
           | None \<Rightarrow>
               (case validate dep h3 (VRef args) (query sc) of
                  Some e \<Rightarrow> (Rejected e, s\<lparr>store := h3\<rparr>)
                | None \<Rightarrow>
                    (case extendOptions sc h3 options of
                       Inl e \<Rightarrow> (Rejected e, s\<lparr>store := h3\<rparr>)
                     | Inr h4 \<Rightarrow>
                         (case request c dep (s\<lparr>store := h4\<rparr>) (Some options) of
                            (Thrown e, s') \<Rightarrow> (Rejected e, s')
                          | r \<Rightarrow> r)))))"
proof -
  from call_options_shape [of d "store s" args] assms
  have j: "get_prop (deref h3 options) ''json'' = VRef args"
    by (auto simp: get_prop_def call_literal_def)
  show ?thesis
    by (simp add: operation_def assms j Let_def split: option.splits sum.splits)
qed

section \<open>Query expansion\<close>

lemma collect_params_object:
  "collect_params h (VRef a) keys params =
     Inr (params @ map (\<lambda>name. name @ ''='' @ encodeURIComponent (to_string (get_prop (deref h a) name)))
                     (filter (\<lambda>name. name \<in> dom (deref h a)) keys))"
  by (induction keys arbitrary: params) (auto simp: js_in_def has_key_def)




section \<open>Validation in a generated operation\<close>

text \<open>
  C5. When the descriptor declares a request schema and the validator refuses the argument
  object against it, the operation fails with the validator's error as it is, and the
  transport has not been called: the record of sent requests is unchanged. A schema that is
  not declared is not validated against: \<^verbatim>\<open>validate\<close> resolves without asking the validator.
\<close>

theorem operation_rejects_invalid_body:
  assumes "schema d = Some sc" and "req sc = Some rs"
    and "call_options d (store s) args = (h3, options)"
    and "tv4_validate dep h3 (VRef args) rs = Some e"
  shows "operation c dep d s (Some args) = (Rejected (SchemaError e), s\<lparr>store := h3\<rparr>)
       \<and> sent (snd (operation c dep d s (Some args))) = sent s
       \<and> validate dep h v None = None"
  using assms by (simp add: operation_Some [OF assms(3)] validate_def)

theorem operation_rejects_invalid_body_witness:
  "fst (operation plain_client default_depends named_descriptor empty_args_state (Some 0))
     = Rejected (SchemaError \<lparr>dataPath = [], message = ''Missing required property: name''\<rparr>)
 \<and> sent (snd (operation plain_client default_depends named_descriptor empty_args_state (Some 0)))
     = []"
proof -
  let ?co = "call_options named_descriptor (store empty_args_state) 0"
  have co: "?co = (fst ?co, snd ?co)" by simp
  have sc: "schema named_descriptor
      = Some \<lparr>req = Some (Schema (Some ''object'')
                            (Some [(''name'', Schema (Some ''string'') None None)])
                            (Some [''name''])),
               query = None\<rparr>"
    by (simp add: named_descriptor_def)
  have v: "tv4_validate default_depends (fst ?co) (VRef 0)
             (Schema (Some ''object'') (Some [(''name'', Schema (Some ''string'') None None)])
                (Some [''name'']))
      = Some \<lparr>dataPath = [], message = ''Missing required property: name''\<rparr>"
    by code_simp
  from operation_rejects_invalid_body [OF sc _ co v, of plain_client]
  show ?thesis by (simp add: empty_args_state_def)
qed



section \<open>Whose object the request operation writes to\<close>

lemma working_options_fresh:
  assumes "get_prop (deref h a) ''inherit'' \<noteq> VBool False"
  shows "\<exists>m. working_options c h a = (h @ [m], length h)"
proof -
  let ?H = "h @ [Map.empty]"
  let ?R = "object_assign ?H (length h) [cfg_requestOptions (config c), VRef a]"
  have "?R = ?H[length h := ?R ! length h]" by (rule object_assign_only_target)
  then have R: "?R = h @ [?R ! length h]" by simp
  have "?R[length h := del_prop (deref ?R (length h)) ''inherit'']
               = h @ [del_prop (deref ?R (length h)) ''inherit'']"
    by (subst R) simp
  with assms show ?thesis
    by (simp add: working_options_def inherit_options_def alloc_def)
qed

text \<open>
  C10. Called with \<^verbatim>\<open>inherit\<close> equal to \<^verbatim>\<open>false\<close>, the request operation works on the
  caller's object: whatever the outcome, \<^verbatim>\<open>inherit\<close> is deleted from that very object and
  no other object of the caller is touched; when the request is sent, the object sent is
  the caller's, which now carries the \<^verbatim>\<open>uri\<close> and a new headers object holding the token
  header. Called with any other \<^verbatim>\<open>inherit\<close>, the operation leaves every object of the
  store as it was, and the object sent is a new one.
\<close>

theorem request_aliasing:
  assumes "a < length (store s)" and "request c dep s (Some a) = (out, s')"
  shows "(get_prop (deref (store s) a) ''inherit'' = VBool False \<longrightarrow>
            deref (store s') a ''inherit'' = None
          \<and> (\<forall>b < length (store s). b \<noteq> a \<longrightarrow> deref (store s') b = deref (store s) b)
          \<and> (\<forall>options. out = Dispatched options \<longrightarrow>
                options = a
              \<and> (\<exists>u hdrs. deref (store s') a
                             = del_prop (deref (store s) a) ''inherit''
                               ++ [''uri'' \<mapsto> VStr u, ''headers'' \<mapsto> VRef hdrs]
                         \<and> length (store s) \<le> hdrs
                         \<and> deref (store s') hdrs = token_headers c)))
       \<and> (get_prop (deref (store s) a) ''inherit'' \<noteq> VBool False \<longrightarrow>
            take (length (store s)) (store s') = store s
          \<and> (\<forall>options. out = Dispatched options \<longrightarrow> length (store s) \<le> options))"
proof (intro conjI impI)
  assume f: "get_prop (deref (store s) a) ''inherit'' = VBool False"
  let ?h2 = "(store s)[a := del_prop (deref (store s) a) ''inherit'']"
  have w: "working_options c (store s) a = (?h2, a)" by (rule working_options_false [OF f])
  have lt: "a < length ?h2" using assms(1) by simp
  note run = request_run [OF w lt, of dep]
  show "deref (store s') a ''inherit'' = None"
    using assms run by (auto simp: deref_update del_prop_def split: option.splits)
  show "\<forall>b < length (store s). b \<noteq> a \<longrightarrow> deref (store s') b = deref (store s) b"
    using assms run by (auto simp: deref_update split: option.splits)
  show "\<forall>options. out = Dispatched options \<longrightarrow>
                options = a
              \<and> (\<exists>u hdrs. deref (store s') a
                             = del_prop (deref (store s) a) ''inherit''
                               ++ [''uri'' \<mapsto> VStr u, ''headers'' \<mapsto> VRef hdrs]
                         \<and> length (store s) \<le> hdrs
                         \<and> deref (store s') hdrs = token_headers c)"
  proof (intro allI impI)
    fix options
    assume "out = Dispatched options"
    with assms run obtain r where o: "options = a"
      and s': "store s' = (?h2 @ [token_headers c,
                                  [''uri'' \<mapsto> VStr (replace_all ''&#x2F;'' ''/'' r),
                                   ''headers'' \<mapsto> VRef (length ?h2)]])
                          [a := deref ?h2 a
                             ++ [''uri'' \<mapsto> VStr (replace_all ''&#x2F;'' ''/'' r),
                                 ''headers'' \<mapsto> VRef (length ?h2)]]"
      by (auto split: option.splits)
    have 1: "deref (store s') a
               = del_prop (deref (store s) a) ''inherit''
                 ++ [''uri'' \<mapsto> VStr (replace_all ''&#x2F;'' ''/'' r),
                     ''headers'' \<mapsto> VRef (length (store s))]"
      using assms(1) by (simp add: s' deref_update)
    have 2: "deref (store s') (length (store s)) = token_headers c"
      using assms(1) by (simp add: s' deref_def nth_append)
    from o 1 2 show "options = a
              \<and> (\<exists>u hdrs. deref (store s') a
                             = del_prop (deref (store s) a) ''inherit''
                               ++ [''uri'' \<mapsto> VStr u, ''headers'' \<mapsto> VRef hdrs]
                         \<and> length (store s) \<le> hdrs
                         \<and> deref (store s') hdrs = token_headers c)"
      by blast
  qed
next
  assume nf: "get_prop (deref (store s) a) ''inherit'' \<noteq> VBool False"
  from working_options_fresh [OF nf, of c]
  obtain m where w: "working_options c (store s) a = (store s @ [m], length (store s))" by blast
  have lt: "length (store s) < length (store s @ [m])" by simp
  note run = request_run [OF w lt, of dep]
  show "take (length (store s)) (store s') = store s"
    using assms run by (auto split: option.splits)
  show "\<forall>options. out = Dispatched options \<longrightarrow> length (store s) \<le> options"
    using assms run by (auto split: option.splits)
qed

theorem request_aliasing_witness:
  "fst (request abc_client default_depends no_inherit_state (Some 0)) = Dispatched 0
 \<and> deref (store (snd (request abc_client default_depends no_inherit_state (Some 0)))) 0
      ''inherit'' = None
 \<and> (\<exists>u hdrs. deref (store (snd (request abc_client default_depends no_inherit_state (Some 0)))) 0
                 = del_prop (deref (store no_inherit_state) 0) ''inherit''
                   ++ [''uri'' \<mapsto> VStr u, ''headers'' \<mapsto> VRef hdrs]
             \<and> deref (store (snd (request abc_client default_depends no_inherit_state (Some 0))))
                  hdrs = token_headers abc_client)
 \<and> take (length (store get_state))
      (store (snd (request abc_client default_depends get_state (Some 0)))) = store get_state"
proof -
  let ?R0 = "request abc_client default_depends no_inherit_state (Some 0)"
  let ?R1 = "request abc_client default_depends get_state (Some 0)"
  have f0: "fst ?R0 = Dispatched 0" by code_simp
  then have r0: "?R0 = (Dispatched 0, snd ?R0)" by (simp add: prod_eq_iff)
  have r1: "?R1 = (fst ?R1, snd ?R1)" by simp
  have a0: "0 < length (store no_inherit_state)" by (simp add: no_inherit_state_def)
  have a1: "0 < length (store get_state)" by (simp add: get_state_def)
  have i0: "get_prop (deref (store no_inherit_state) 0) ''inherit'' = VBool False"
    by (simp add: no_inherit_state_def deref_def get_prop_def)
  have i1: "get_prop (deref (store get_state) 0) ''inherit'' \<noteq> VBool False"
    by (simp add: get_state_def deref_def get_prop_def)
  from request_aliasing [OF a0 r0] i0
  have 0: "deref (store (snd ?R0)) 0 ''inherit'' = None"
    "\<exists>u hdrs. deref (store (snd ?R0)) 0
                 = del_prop (deref (store no_inherit_state) 0) ''inherit''
                   ++ [''uri'' \<mapsto> VStr u, ''headers'' \<mapsto> VRef hdrs]
             \<and> deref (store (snd ?R0)) hdrs = token_headers abc_client"
    by blast+
  from request_aliasing [OF a1 r1] i1
  have 1: "take (length (store get_state)) (store (snd ?R1)) = store get_state"
    by blast
  from f0 0 1 show ?thesis by blast
qed



section \<open>The merge of the options\<close>

text \<open>
  The claim C8 as the specification words it fails: with the client defaults
  \<^verbatim>\<open>{timeout: 5}\<close> and the arguments \<^verbatim>\<open>{requestOptions: {inherit: false}}\<close> the options
  that are sent hold no \<^verbatim>\<open>timeout\<close>.
\<close>

theorem operation_opt_out_drops_defaults:
  "fst (operation defaults_client default_depends status_descriptor opt_out_state (Some 1))
     = Dispatched 3
 \<and> get_prop (deref (store (snd (operation defaults_client default_depends status_descriptor
                                    opt_out_state (Some 1)))) 3) ''timeout'' = VUndefined
 \<and> cfg_requestOptions (config defaults_client) = VRef 0
 \<and> get_prop (deref (store opt_out_state) 0) ''timeout'' = VNum 5"
  by code_simp

lemma extendOptions_run:
  assumes "get_prop (deref h options) ''json'' = VRef args"
  shows "extendOptions sc h options =
     (case query sc of
        None \<Rightarrow> Inr h
      | Some qs \<Rightarrow>
          (case s_properties qs of
             None \<Rightarrow> Inl TypeError
           | Some props \<Rightarrow>
               Inr (h[options := (deref h options)
                     (''path'' \<mapsto> VStr (to_string (get_prop (deref h options) ''path'')
                                        @ query_string_spec (map fst props) (deref h args)))])))"
  using assms
  by (simp add: extendOptions_def collect_params_object query_string_spec_def set_prop_def
      Let_def split: option.splits)




lemma call_options_per_call:
  assumes "args < length h" "allocated h (requestOptions d)"
    "allocated h (get_prop (deref h args) ''requestOptions'')"
  shows "call_options d h args =
     (h @ [per_call_options (d\<lparr>schema := None\<rparr>) h args, call_literal d args], length h)"
  using call_options_eq [OF assms]
  by (simp add: per_call_options_def call_path_def call_literal_def)

lemma per_call_extended:
  assumes "schema d = Some sc" "query sc = Some qs" "s_properties qs = Some props"
  shows "(per_call_options (d\<lparr>schema := None\<rparr>) h args)
           (''path'' \<mapsto> VStr (to_string (get_prop (per_call_options (d\<lparr>schema := None\<rparr>) h args) ''path'')
                              @ query_string_spec (map fst props) (deref h args)))
         = per_call_options d h args"
  using assms
  by (auto simp: per_call_options_def call_path_def get_prop_def)

lemma per_call_plain:
  assumes "schema d = None \<or> (\<exists>sc. schema d = Some sc \<and> query sc = None)"
  shows "per_call_options (d\<lparr>schema := None\<rparr>) h args = per_call_options d h args"
  using assms by (auto simp: per_call_options_def call_path_def)

lemma operation_run:
  assumes "args < length (store s)" "allocated (store s) (requestOptions d)"
    "allocated (store s) (get_prop (deref (store s) args) ''requestOptions'')"
  shows "operation c dep d s (Some args) =
     (let h3 = store s @ [per_call_options (d\<lparr>schema := None\<rparr>) (store s) args, call_literal d args];
          h4 = store s @ [per_call_options d (store s) args, call_literal d args]
      in case schema d of
           None \<Rightarrow> request c dep (s\<lparr>store := h4\<rparr>) (Some (length (store s)))
         | Some sc \<Rightarrow>
             (case validate dep h3 (VRef args) (req sc) of
                Some e \<Rightarrow> (Rejected e, s\<lparr>store := h3\<rparr>)
              | None \<Rightarrow>
                  (case validate dep h3 (VRef args) (query sc) of
                     Some e \<Rightarrow> (Rejected e, s\<lparr>store := h3\<rparr>)
                   | None \<Rightarrow>
                       if \<exists>qs. query sc = Some qs \<and> s_properties qs = None
                       then (Rejected TypeError, s\<lparr>store := h3\<rparr>)
                       else (case request c dep (s\<lparr>store := h4\<rparr>) (Some (length (store s))) of
                               (Thrown e, s') \<Rightarrow> (Rejected e, s')
                             | r \<Rightarrow> r))))"
proof -
  let ?pc0 = "per_call_options (d\<lparr>schema := None\<rparr>) (store s) args"
  let ?h3 = "store s @ [?pc0, call_literal d args]"
  note co = call_options_per_call [OF assms]
  have j: "get_prop (deref (store s @ [per_call_options d' (store s) args, x]) (length (store s)))
             ''json'' = VRef args" for d' x
    by (simp add: per_call_options_def get_prop_def)
  have da: "deref ?h3 args = deref (store s) args" using assms(1) by simp
  show ?thesis
  proof (cases "schema d")
    case None
    then show ?thesis
      by (simp add: operation_Some [OF co] per_call_plain)
  next
    case (Some sc)
    show ?thesis
    proof (cases "query sc")
      case None
      with Some show ?thesis
        by (simp add: operation_Some [OF co] extendOptions_run [OF j] per_call_plain Let_def
            split: option.splits)
    next
      case (Some qs) note q = this
      show ?thesis
      proof (cases "s_properties qs")
        case None
        with q \<open>schema d = Some sc\<close> show ?thesis
          by (simp add: operation_Some [OF co] extendOptions_run [OF j] Let_def
              split: option.splits)
      next
        case (Some props)
        note pe = per_call_extended [OF \<open>schema d = Some sc\<close> q Some, of "store s" args]
        from q Some \<open>schema d = Some sc\<close> show ?thesis
          by (simp add: operation_Some [OF co] extendOptions_run [OF j] da pe Let_def
              split: option.splits)
      qed
    qed
  qed
qed




lemma request_merged:
  assumes "a < length (store s)" "allocated (store s) (cfg_requestOptions (config c))"
    "request c dep s (Some a) = (Dispatched options, s')"
  shows "(\<forall>k. k \<noteq> ''uri'' \<and> k \<noteq> ''headers'' \<and> k \<noteq> ''inherit'' \<longrightarrow>
            deref (store s') options k
            = ((if get_prop (deref (store s) a) ''inherit'' = VBool False then Map.empty
                else own_props (store s) (cfg_requestOptions (config c)))
               ++ deref (store s) a) k)
       \<and> deref (store s') options ''inherit'' = None"
proof (cases "get_prop (deref (store s) a) ''inherit'' = VBool False")
  case True
  let ?h2 = "(store s)[a := del_prop (deref (store s) a) ''inherit'']"
  have w: "working_options c (store s) a = (?h2, a)" by (rule working_options_false [OF True])
  have lt: "a < length ?h2" using assms(1) by simp
  from assms(1,3) True show ?thesis
    by (auto simp: request_run [OF w lt] deref_update del_prop_def map_add_def
        split: option.splits)
next
  case False
  let ?w = "del_prop (own_props (store s) (cfg_requestOptions (config c)) ++ deref (store s) a)
              ''inherit''"
  have w: "working_options c (store s) a = (store s @ [?w], length (store s))"
    by (rule working_options_merge [OF False assms(1,2)])
  have lt: "length (store s) < length (store s @ [?w])" by simp
  from assms(3) False show ?thesis
    by (auto simp: request_run [OF w lt] deref_update del_prop_def map_add_def
        split: option.splits)
qed

text \<open>
  C8, as the source has it. The options a generated operation sends agree, on every key
  other than \<^verbatim>\<open>uri\<close>, \<^verbatim>\<open>headers\<close> and \<^verbatim>\<open>inherit\<close>, with the merge in increasing priority of
  the client's default request options, the descriptor's request options, the request
  options of the arguments, and the descriptor's method, its path (with the query string)
  and the arguments as body; the client's defaults are left out when the options of the
  call set \<^verbatim>\<open>inherit\<close> to \<^verbatim>\<open>false\<close>, and \<^verbatim>\<open>inherit\<close> itself is never sent. The request
  operation alone does the same with the options it is given: with \<^verbatim>\<open>inherit\<close> equal to
  \<^verbatim>\<open>false\<close> it works on them without the client's defaults, otherwise on a new object that
  holds the defaults below them.
\<close>

theorem operation_merge_priority:
  assumes "args < length (store s)"
    and "allocated (store s) (cfg_requestOptions (config c))"
    and "allocated (store s) (requestOptions d)"
    and "allocated (store s) (get_prop (deref (store s) args) ''requestOptions'')"
    and "operation c dep d s (Some args) = (Dispatched options, s')"
  shows "(\<forall>k. k \<noteq> ''uri'' \<and> k \<noteq> ''headers'' \<and> k \<noteq> ''inherit'' \<longrightarrow>
            deref (store s') options k = merged_options c d (store s) args k)
       \<and> deref (store s') options ''inherit'' = None
       \<and> (get_prop (deref (store s) a) ''inherit'' = VBool False \<longrightarrow>
            working_options c (store s) a
            = ((store s)[a := del_prop (deref (store s) a) ''inherit''], a))
       \<and> (get_prop (deref (store s) a) ''inherit'' \<noteq> VBool False \<and> a < length (store s) \<longrightarrow>
            working_options c (store s) a
            = (store s @ [del_prop (own_props (store s) (cfg_requestOptions (config c))
                                    ++ deref (store s) a) ''inherit''],
               length (store s)))"
proof -
  let ?h4 = "store s @ [per_call_options d (store s) args, call_literal d args]"
  let ?s4 = "s\<lparr>store := ?h4\<rparr>"
  have r: "request c dep ?s4 (Some (length (store s))) = (Dispatched options, s')"
    using assms(5) unfolding operation_run [OF assms(1,3,4)] Let_def
    by (auto split: option.splits if_splits prod.splits outcome.splits)
  have lt: "length (store s) < length (store ?s4)" by simp
  have al: "allocated (store ?s4) (cfg_requestOptions (config c))"
    using assms(2) by (auto simp: allocated_def split: val.splits)
  have op: "own_props ?h4 (cfg_requestOptions (config c))
              = own_props (store s) (cfg_requestOptions (config c))"
    using assms(2) by simp
  from request_merged [OF lt al r]
  have "(\<forall>k. k \<noteq> ''uri'' \<and> k \<noteq> ''headers'' \<and> k \<noteq> ''inherit'' \<longrightarrow>
            deref (store s') options k = merged_options c d (store s) args k)
       \<and> deref (store s') options ''inherit'' = None"
    by (simp add: op merged_options_def)
  then show ?thesis
    by (auto simp: working_options_false working_options_merge assms(2))
qed

theorem operation_merge_priority_witness:
  "fst (operation defaults_client default_depends status_descriptor override_state (Some 1))
     = Dispatched 5
 \<and> deref (store (snd (operation defaults_client default_depends status_descriptor
                         override_state (Some 1)))) 5 ''timeout'' = Some (VNum 9)
 \<and> deref (store (snd (operation defaults_client default_depends status_descriptor
                         override_state (Some 1)))) 5 ''retries'' = Some (VNum 2)
 \<and> deref (store (snd (operation defaults_client default_depends status_descriptor
                         override_state (Some 1)))) 5 ''method'' = Some (VStr ''GET'')
 \<and> deref (store (snd (operation defaults_client default_depends status_descriptor
                         override_state (Some 1)))) 5 ''inherit'' = None"
proof -
  let ?R = "operation defaults_client default_depends status_descriptor override_state (Some 1)"
  have f: "fst ?R = Dispatched 5" by code_simp
  then have r: "?R = (Dispatched 5, snd ?R)" by (simp add: prod_eq_iff)
  have a: "1 < length (store override_state)" by (simp add: override_state_def)
  have c: "allocated (store override_state) (cfg_requestOptions (config defaults_client))"
    by (simp add: allocated_def defaults_client_def new_client_def override_state_def)
  have d: "allocated (store override_state) (requestOptions status_descriptor)"
    by (simp add: allocated_def status_descriptor_def)
  have g: "allocated (store override_state)
             (get_prop (deref (store override_state) 1) ''requestOptions'')"
    by (simp add: allocated_def override_state_def deref_def get_prop_def)
  have m: "merged_options defaults_client status_descriptor (store override_state) 1 ''timeout''
             = Some (VNum 9)"
    "merged_options defaults_client status_descriptor (store override_state) 1 ''retries''
             = Some (VNum 2)"
    "merged_options defaults_client status_descriptor (store override_state) 1 ''method''
             = Some (VStr ''GET'')"
    by code_simp+
  from operation_merge_priority [OF a c d g r, of 0] f m show ?thesis by simp
qed

section \<open>Documents in a growing store\<close>

lemma same_doc_extend:
  "same_doc h h' v v' \<Longrightarrow> same_doc (h @ X) (h' @ Y) v v'"
proof (induction rule: same_doc.induct)
  case (sd_arr xs ys)
  then have "list_all2 (same_doc (h @ X) (h' @ Y)) xs ys"
    by (rule list_all2_mono) simp
  then show ?case by (rule same_doc.sd_arr)
next
  case (sd_ref a a')
  then show ?case
    by (intro same_doc.sd_ref) (auto simp: nth_append)
qed (auto intro: same_doc.intros)

lemma plain_data_field:
  assumes "plain_data h (VRef a)" "(h ! a) k = Some x"
  shows "plain_data h x"
  using assms unfolding plain_data_def
  by (auto elim: same_doc.cases)

lemma plain_data_allocated: "plain_data h v \<Longrightarrow> allocated h v"
  unfolding plain_data_def allocated_def
  by (auto elim: same_doc.cases split: val.splits)

lemma plain_data_element:
  assumes "plain_data h (VArr xs)" "x \<in> set xs"
  shows "plain_data h x"
proof -
  from assms(1) have "list_all2 (same_doc h h) xs xs"
    unfolding plain_data_def by (auto elim: same_doc.cases)
  with assms(2) show ?thesis
    unfolding plain_data_def by (auto simp: list_all2_conv_all_nth in_set_conv_nth)
qed

lemma plain_data_own_props:
  assumes "plain_data h v" "own_props h v k = Some x"
  shows "plain_data h x"
proof (cases v)
  case (VRef a)
  with assms plain_data_allocated [OF assms(1)] show ?thesis
    by (auto simp: own_props_def deref_def allocated_def intro: plain_data_field)
next
  case (VArr xs)
  with assms(2) have "x \<in> set xs"
    by (auto simp: own_props_def dest!: map_of_SomeD set_zip_rightD)
  with assms(1) VArr show ?thesis by (auto intro: plain_data_element)
next
  case (VStr s)
  with assms(2) obtain c where "x = VStr [c]"
    by (auto simp: own_props_def dest!: map_of_SomeD set_zip_rightD)
  then show ?thesis by (simp add: plain_data_def same_doc.intros)
qed (use assms in \<open>simp_all add: own_props_def\<close>)

text \<open>An object all of whose properties are plain data of the store \<open>h\<close>.\<close>

lemma content_only_old:
  assumes "content_only f" "plain_data h v"
  shows "f (h @ X) v = f h v"
proof -
  from assms(2) have "same_doc (h @ X) (h @ []) v v"
    unfolding plain_data_def by (rule same_doc_extend)
  with assms(1) show ?thesis unfolding content_only_def by fastforce
qed

lemma content_only_new:
  assumes "content_only f" "\<forall>k x. m k = Some x \<longrightarrow> plain_data h x"
    "i < length (h @ X)" "(h @ X) ! i = m" "j < length (h @ Y)" "(h @ Y) ! j = m"
  shows "f (h @ X) (VRef i) = f (h @ Y) (VRef j)"
proof -
  have "same_doc (h @ X) (h @ Y) (VRef i) (VRef j)"
  proof (rule same_doc.sd_ref)
    show "\<forall>k v v'. ((h @ X) ! i) k = Some v \<longrightarrow> ((h @ Y) ! j) k = Some v'
            \<longrightarrow> same_doc (h @ X) (h @ Y) v v'"
      using assms(2,4,6) by (auto simp: plain_data_def intro: same_doc_extend)
  qed (use assms in simp_all)
  with assms(1) show ?thesis unfolding content_only_def by blast
qed

section \<open>A call in a store that has grown\<close>

lemma plain_data_undefined [simp]: "plain_data h VUndefined"
  by (simp add: plain_data_def same_doc.intros)

lemma plain_data_get_prop:
  "\<forall>k x. m k = Some x \<longrightarrow> plain_data h x \<Longrightarrow> plain_data h (get_prop m k)"
  by (auto simp: get_prop_def split: option.splits)

lemma request_explicit:
  fixes h E :: heap
  defines "vals \<equiv> \<lambda>r m. [''uri'' \<mapsto> VStr (replace_all ''&#x2F;'' ''/'' r), ''headers'' \<mapsto> VRef m]"
  assumes B: "B = h @ E"
    and cv: "content_only (tv4_validate dep)"
    and cr: "content_only (\<lambda>h v tpl. mustache_render dep h tpl v)"
    and pcro: "plain_data h (cfg_requestOptions (config c))"
    and ppc: "\<forall>k x. pc k = Some x \<longrightarrow> plain_data h x"
  shows "request c dep \<lparr>store = B @ [pc, lit], sent = t\<rparr> (Some (length B)) =
     (if get_prop pc ''inherit'' = VBool False then
        (case tv4_validate dep (h @ [del_prop pc ''inherit'']) (VRef (length h)) requestSchema of
           Some e \<Rightarrow> (Rejected (SchemaError e),
                      \<lparr>store = B @ [del_prop pc ''inherit'', lit], sent = t\<rparr>)
         | None \<Rightarrow>
             (case mustache_render dep h
                     (endpoint c @ ''/'' @ apiVersion c
                      @ to_string (get_prop (del_prop pc ''inherit'') ''path''))
                     (get_prop (del_prop pc ''inherit'') ''json'') of
                None \<Rightarrow> (Thrown RenderError,
                          \<lparr>store = B @ [del_prop pc ''inherit'', lit], sent = t\<rparr>)
              | Some r \<Rightarrow>
                  (Dispatched (length B),
                   \<lparr>store = B @ [del_prop pc ''inherit'' ++ vals r (length B + 2), lit,
                                 token_headers c, vals r (length B + 2)],
                      sent = t @ [length B]\<rparr>)))
      else
        (case tv4_validate dep
                (h @ [del_prop (own_props h (cfg_requestOptions (config c)) ++ pc) ''inherit''])
                (VRef (length h)) requestSchema of
           Some e \<Rightarrow> (Rejected (SchemaError e),
                      \<lparr>store = B @ [pc, lit,
                                    del_prop (own_props h (cfg_requestOptions (config c)) ++ pc)
                                      ''inherit''],
                         sent = t\<rparr>)
         | None \<Rightarrow>
             (case mustache_render dep h
                     (endpoint c @ ''/'' @ apiVersion c
                      @ to_string (get_prop (del_prop (own_props h (cfg_requestOptions (config c))
                                                       ++ pc) ''inherit'') ''path''))
                     (get_prop (del_prop (own_props h (cfg_requestOptions (config c)) ++ pc)
                                  ''inherit'') ''json'') of
                None \<Rightarrow> (Thrown RenderError,
                          \<lparr>store = B @ [pc, lit,
                                        del_prop (own_props h (cfg_requestOptions (config c))
                                                  ++ pc) ''inherit''],
                             sent = t\<rparr>)
              | Some r \<Rightarrow>
                  (Dispatched (length B + 2),
                   \<lparr>store = B @ [pc, lit,
                                 del_prop (own_props h (cfg_requestOptions (config c)) ++ pc)
                                   ''inherit'' ++ vals r (length B + 3),
                                 token_headers c, vals r (length B + 3)],
                      sent = t @ [length B + 2]\<rparr>))))"
proof (cases "get_prop pc ''inherit'' = VBool False")
  case True
  let ?w = "del_prop pc ''inherit''"
  let ?s = "\<lparr>store = B @ [pc, lit], sent = t\<rparr>"
  let ?h2 = "B @ [?w, lit]"
  have pw: "\<forall>k x. ?w k = Some x \<longrightarrow> plain_data h x"
    using ppc by (auto simp: del_prop_def split: if_splits)
  have w: "working_options c (store ?s) (length B) = (?h2, length B)"
    using True by (simp add: working_options_false)
  have lt: "length B < length ?h2" by simp
  have v: "tv4_validate dep ?h2 (VRef (length B)) = tv4_validate dep (h @ [?w]) (VRef (length h))"
  proof -
    have "tv4_validate dep (h @ (E @ [?w, lit])) (VRef (length h + length E))
            = tv4_validate dep (h @ [?w]) (VRef (length h))"
      by (rule content_only_new [OF cv pw]) (simp_all add: nth_append)
    then show ?thesis unfolding B by simp
  qed
  have r: "mustache_render dep ?h2 tpl (get_prop ?w ''json'')
         = mustache_render dep h tpl (get_prop ?w ''json'')" for tpl
    using content_only_old [OF cr plain_data_get_prop [OF pw], of "E @ [?w, lit]" "''json''"]
    unfolding B by (simp add: fun_eq_iff)
  show ?thesis
    using True
    by (simp add: request_run [OF w lt] v r vals_def split: option.splits)
next
  case False
  let ?cro = "own_props h (cfg_requestOptions (config c))"
  let ?w = "del_prop (?cro ++ pc) ''inherit''"
  let ?s = "\<lparr>store = B @ [pc, lit], sent = t\<rparr>"
  let ?h2 = "B @ [pc, lit, ?w]"
  have pw: "\<forall>k x. ?w k = Some x \<longrightarrow> plain_data h x"
    using ppc plain_data_own_props [OF pcro]
    by (auto simp: del_prop_def map_add_def split: if_splits option.splits)
  have al: "allocated (B @ [pc, lit]) (cfg_requestOptions (config c))"
    using plain_data_allocated [OF pcro] unfolding B
    by (auto simp: allocated_def split: val.splits)
  have op: "own_props (B @ [pc, lit]) (cfg_requestOptions (config c)) = ?cro"
    using own_props_append [OF plain_data_allocated [OF pcro], of "E @ [pc, lit]"]
    unfolding B by simp
  have w: "working_options c (store ?s) (length B) = (?h2, Suc (Suc (length B)))"
    using False working_options_merge [of "B @ [pc, lit]" "length B" c, OF _ _ al]
    by (simp add: op)
  have lt: "Suc (Suc (length B)) < length ?h2" by simp
  have v: "tv4_validate dep ?h2 (VRef (Suc (Suc (length B))))
         = tv4_validate dep (h @ [?w]) (VRef (length h))"
  proof -
    have "tv4_validate dep (h @ (E @ [pc, lit, ?w])) (VRef (length h + length E + 2))
            = tv4_validate dep (h @ [?w]) (VRef (length h))"
      by (rule content_only_new [OF cv pw]) (simp_all add: nth_append)
    then show ?thesis unfolding B by simp
  qed
  have r: "mustache_render dep ?h2 tpl (get_prop ?w ''json'')
         = mustache_render dep h tpl (get_prop ?w ''json'')" for tpl
    using content_only_old [OF cr plain_data_get_prop [OF pw], of "E @ [pc, lit, ?w]" "''json''"]
    unfolding B by (simp add: fun_eq_iff)
  have d: "deref ?h2 (Suc (Suc (length B))) = ?w" by (simp add: deref_def nth_append)
  show ?thesis
    using False
    by (simp add: request_run [OF w lt] v r d vals_def list_update_append nth_append
        numeral_3_eq_3 split: option.splits)
qed

lemma per_call_options_plain:
  assumes "plain_data h (VRef args)" "plain_data h (requestOptions d)"
  shows "\<forall>k x. per_call_options d h args k = Some x \<longrightarrow> plain_data h x"
proof -
  from plain_data_allocated [OF assms(1)] have a: "args < length h" by (simp add: allocated_def)
  have ro: "plain_data h (get_prop (deref h args) ''requestOptions'')"
    using plain_data_field [OF assms(1)] a
    by (auto simp: get_prop_def deref_def split: option.splits)
  have s: "plain_data h (VStr x)" for x by (simp add: plain_data_def same_doc.intros)
  show ?thesis
    using plain_data_own_props [OF assms(2)] plain_data_own_props [OF ro] assms(1) s
    by (auto simp: per_call_options_def map_add_def split: option.splits if_splits)
qed

lemma per_call_options_grown:
  assumes "plain_data h (VRef args)" "plain_data h (requestOptions d)"
  shows "per_call_options d (h @ E) args = per_call_options d h args"
proof -
  from plain_data_allocated [OF assms(1)] have a: "args < length h" by (simp add: allocated_def)
  have ro: "plain_data h (get_prop (deref h args) ''requestOptions'')"
    using plain_data_field [OF assms(1)] a
    by (auto simp: get_prop_def deref_def split: option.splits)
  show ?thesis
    using a plain_data_allocated [OF assms(2)] plain_data_allocated [OF ro]
    by (simp add: per_call_options_def)
qed

lemma operation_explicit:
  assumes B: "B = h @ E"
    and cv: "content_only (tv4_validate dep)"
    and pa: "plain_data h (VRef args)"
    and pd: "plain_data h (requestOptions d)"
  shows "operation c dep d \<lparr>store = B, sent = t\<rparr> (Some args) =
     (case schema d of
        None \<Rightarrow>
          request c dep \<lparr>store = B @ [per_call_options d h args, call_literal d args], sent = t\<rparr>
            (Some (length B))
      | Some sc \<Rightarrow>
          (case validate dep h (VRef args) (req sc) of
             Some e \<Rightarrow>
               (Rejected e,
                \<lparr>store = B @ [per_call_options (d\<lparr>schema := None\<rparr>) h args, call_literal d args],
                   sent = t\<rparr>)
           | None \<Rightarrow>
               (case validate dep h (VRef args) (query sc) of
                  Some e \<Rightarrow>
                    (Rejected e,
                     \<lparr>store = B @ [per_call_options (d\<lparr>schema := None\<rparr>) h args,
                                   call_literal d args],
                        sent = t\<rparr>)
                | None \<Rightarrow>
                    if \<exists>qs. query sc = Some qs \<and> s_properties qs = None
                    then (Rejected TypeError,
                          \<lparr>store = B @ [per_call_options (d\<lparr>schema := None\<rparr>) h args,
                                        call_literal d args],
                             sent = t\<rparr>)
                    else (case request c dep
                                 \<lparr>store = B @ [per_call_options d h args, call_literal d args],
                                    sent = t\<rparr>
                                 (Some (length B)) of
                            (Thrown e, s') \<Rightarrow> (Rejected e, s')
                          | r \<Rightarrow> r))))"
proof -
  let ?s = "\<lparr>store = B, sent = t\<rparr>"
  from plain_data_allocated [OF pa] have a: "args < length h" by (simp add: allocated_def)
  have ro: "plain_data h (get_prop (deref h args) ''requestOptions'')"
    using plain_data_field [OF pa] a
    by (auto simp: get_prop_def deref_def split: option.splits)
  have 1: "args < length (store ?s)" using a B by simp
  have 2: "allocated (store ?s) (requestOptions d)"
    using plain_data_allocated [OF pd] B by (auto simp: allocated_def split: val.splits)
  have 3: "allocated (store ?s) (get_prop (deref (store ?s) args) ''requestOptions'')"
    using plain_data_allocated [OF ro] B a by (auto simp: allocated_def split: val.splits)
  have pd0: "plain_data h (requestOptions (d\<lparr>schema := None\<rparr>))" using pd by simp
  have pc: "per_call_options d B args = per_call_options d h args"
    unfolding B by (rule per_call_options_grown [OF pa pd])
  have pc0: "per_call_options (d\<lparr>schema := None\<rparr>) B args
               = per_call_options (d\<lparr>schema := None\<rparr>) h args"
    unfolding B by (rule per_call_options_grown [OF pa pd0])
  have v: "validate dep (B @ X) (VRef args) sch = validate dep h (VRef args) sch" for X sch
  proof -
    have "tv4_validate dep (h @ E @ X) (VRef args) = tv4_validate dep h (VRef args)"
      by (rule content_only_old [OF cv pa])
    then have "tv4_validate dep (h @ E @ X) (VRef args) sc = tv4_validate dep h (VRef args) sc"
      for sc by simp
    then show ?thesis unfolding B by (cases sch) (simp_all add: validate_def)
  qed
  show ?thesis
    unfolding operation_run [OF 1 2 3] Let_def
    by (auto simp: pc pc0 v split: option.splits)
qed

lemma deref_append_offset: "length B \<le> a \<Longrightarrow> deref (B @ xs) a = deref xs (a - length B)"
  by (auto simp: deref_def nth_append)

text \<open>What a sent request looks like in the store: the options object \<open>w\<close> with the \<^verbatim>\<open>uri\<close>
  and the reference to its headers object, which holds the token header.\<close>

lemma sent_request_shape:
  assumes "H ! i = w ++ [''uri'' \<mapsto> u, ''headers'' \<mapsto> VRef j]" "i < length H" "j < length H"
    "H ! j = th"
  shows "(\<forall>k. k \<noteq> ''headers'' \<longrightarrow> deref H i k = (w ++ [''uri'' \<mapsto> u]) k)
       \<and> deref H i ''headers'' = Some (VRef j) \<and> deref H j = th"
  using assms by (simp add: deref_def map_add_def)

lemma request_pair:
  fixes h E1 E2 :: heap
  assumes cv: "content_only (tv4_validate dep)"
    and cr: "content_only (\<lambda>h v tpl. mustache_render dep h tpl v)"
    and pcro: "plain_data h (cfg_requestOptions (config c))"
    and ppc: "\<forall>k x. pc k = Some x \<longrightarrow> plain_data h x"
    and B1: "B1 = h @ E1" and B2: "B2 = h @ E2"
    and r1: "request c dep \<lparr>store = B1 @ [pc, lit], sent = t1\<rparr> (Some (length B1)) = (out1, s1)"
    and r2: "request c dep \<lparr>store = B2 @ [pc, lit], sent = t2\<rparr> (Some (length B2)) = (out2, s2)"
  shows "(\<exists>Y. store s1 = B1 @ Y) \<and> (\<exists>Y. store s2 = B2 @ Y)
       \<and> (\<forall>e. out1 = Rejected e \<longrightarrow> out2 = Rejected e)
       \<and> (\<forall>e. out1 = Thrown e \<longrightarrow> out2 = Thrown e)
       \<and> (\<forall>o1. out1 = Dispatched o1 \<longrightarrow>
             (\<exists>o2 hd1 hd2. out2 = Dispatched o2
                \<and> length B1 \<le> o1 \<and> o1 < length (store s1) \<and> length B2 \<le> o2
                \<and> (\<forall>k. k \<noteq> ''headers'' \<longrightarrow> deref (store s2) o2 k = deref (store s1) o1 k)
                \<and> deref (store s1) o1 ''headers'' = Some (VRef hd1)
                \<and> deref (store s2) o2 ''headers'' = Some (VRef hd2)
                \<and> length B1 \<le> hd1 \<and> hd1 < length (store s1) \<and> length B2 \<le> hd2
                \<and> deref (store s2) hd2 = deref (store s1) hd1))"
proof -
  define w where "w = (if get_prop pc ''inherit'' = VBool False then del_prop pc ''inherit''
       else del_prop (own_props h (cfg_requestOptions (config c)) ++ pc) ''inherit'')"
  define verdict where "verdict = tv4_validate dep (h @ [w]) (VRef (length h)) requestSchema"
  define rendered where "rendered = mustache_render dep h
       (endpoint c @ ''/'' @ apiVersion c @ to_string (get_prop w ''path'')) (get_prop w ''json'')"
  define pre where "pre = (if get_prop pc ''inherit'' = VBool False then [] else [pc, lit])"
  define post where "post = (if get_prop pc ''inherit'' = VBool False then [lit] else [])"
  have ex: "request c dep \<lparr>store = B @ [pc, lit], sent = t\<rparr> (Some (length B)) =
     (case verdict of
        Some e \<Rightarrow> (Rejected (SchemaError e), \<lparr>store = B @ pre @ [w] @ post, sent = t\<rparr>)
      | None \<Rightarrow>
          (case rendered of
             None \<Rightarrow> (Thrown RenderError, \<lparr>store = B @ pre @ [w] @ post, sent = t\<rparr>)
           | Some r \<Rightarrow>
               (Dispatched (length B + length pre),
                \<lparr>store = B @ pre
                     @ [w ++ [''uri'' \<mapsto> VStr (replace_all ''&#x2F;'' ''/'' r),
                              ''headers'' \<mapsto> VRef (length B + length pre + length post + 1)]]
                     @ post
                     @ [token_headers c,
                        [''uri'' \<mapsto> VStr (replace_all ''&#x2F;'' ''/'' r),
                         ''headers'' \<mapsto> VRef (length B + length pre + length post + 1)]],
                   sent = t @ [length B + length pre]\<rparr>)))"
    if "B = h @ E" for B E t
    unfolding request_explicit [OF that cv cr pcro ppc] w_def verdict_def rendered_def pre_def
      post_def
    by (simp add: numeral_3_eq_3 split: option.splits)
  note e1 = r1 [unfolded ex [OF B1]] and e2 = r2 [unfolded ex [OF B2]]
  show ?thesis
  proof (cases verdict)
    case (Some e)
    with e1 e2 show ?thesis by auto
  next
    case None note v = this
    show ?thesis
    proof (cases rendered)
      case None
      with v e1 e2 show ?thesis by auto
    next
      case (Some r)
      let ?u = "VStr (replace_all ''&#x2F;'' ''/'' r)"
      let ?Y = "\<lambda>B. pre @ [w ++ [''uri'' \<mapsto> ?u,
                              ''headers'' \<mapsto> VRef (length B + length pre + length post + 1)]]
                     @ post
                     @ [token_headers c,
                        [''uri'' \<mapsto> ?u,
                         ''headers'' \<mapsto> VRef (length B + length pre + length post + 1)]]"
      from v Some e1 e2 have o: "out1 = Dispatched (length B1 + length pre)"
        "out2 = Dispatched (length B2 + length pre)"
        and s: "store s1 = B1 @ ?Y B1" "store s2 = B2 @ ?Y B2"
        by auto
      have sh: "(\<forall>k. k \<noteq> ''headers'' \<longrightarrow>
                   deref (B @ ?Y B) (length B + length pre) k = (w ++ [''uri'' \<mapsto> ?u]) k)
              \<and> deref (B @ ?Y B) (length B + length pre) ''headers''
                   = Some (VRef (length B + length pre + length post + 1))
              \<and> deref (B @ ?Y B) (length B + length pre + length post + 1) = token_headers c"
        for B :: heap
        by (rule sent_request_shape) (simp_all add: nth_append)
      show ?thesis
        unfolding o s using sh [of B1] sh [of B2]
        by (intro conjI allI impI exI [of _ "length B2 + length pre"]
              exI [of _ "length B1 + length pre + length post + 1"]
              exI [of _ "length B2 + length pre + length post + 1"]
              exI [of _ "?Y B1"] exI [of _ "?Y B2"]) simp_all
    qed
  qed
qed

lemma operation_pair:
  fixes h E1 E2 :: heap
  assumes cv: "content_only (tv4_validate dep)"
    and cr: "content_only (\<lambda>h v tpl. mustache_render dep h tpl v)"
    and pa: "plain_data h (VRef args)"
    and pcro: "plain_data h (cfg_requestOptions (config c))"
    and pd: "plain_data h (requestOptions d)"
    and B1: "B1 = h @ E1" and B2: "B2 = h @ E2"
    and r1: "operation c dep d \<lparr>store = B1, sent = t1\<rparr> (Some args) = (out1, s1)"
    and r2: "operation c dep d \<lparr>store = B2, sent = t2\<rparr> (Some args) = (out2, s2)"
  shows "(\<exists>Y. store s1 = B1 @ Y) \<and> (\<exists>Y. store s2 = B2 @ Y)
       \<and> (\<forall>e. out1 = Rejected e \<longrightarrow> out2 = Rejected e)
       \<and> (\<forall>e. out1 = Thrown e \<longrightarrow> out2 = Thrown e)
       \<and> (\<forall>o1. out1 = Dispatched o1 \<longrightarrow>
             (\<exists>o2 hd1 hd2. out2 = Dispatched o2
                \<and> length B1 \<le> o1 \<and> o1 < length (store s1) \<and> length B2 \<le> o2
                \<and> (\<forall>k. k \<noteq> ''headers'' \<longrightarrow> deref (store s2) o2 k = deref (store s1) o1 k)
                \<and> deref (store s1) o1 ''headers'' = Some (VRef hd1)
                \<and> deref (store s2) o2 ''headers'' = Some (VRef hd2)
                \<and> length B1 \<le> hd1 \<and> hd1 < length (store s1) \<and> length B2 \<le> hd2
                \<and> deref (store s2) hd2 = deref (store s1) hd1))"
proof -
  let ?pc = "per_call_options d h args"
  let ?lit = "call_literal d args"
  let ?req = "\<lambda>B t. request c dep \<lparr>store = B @ [?pc, ?lit], sent = t\<rparr> (Some (length B))"
  note ppc = per_call_options_plain [OF pa pd]
  note e1 = r1 [unfolded operation_explicit [OF B1 cv pa pd]]
    and e2 = r2 [unfolded operation_explicit [OF B2 cv pa pd]]
  obtain q1 u1 q2 u2 where q: "?req B1 t1 = (q1, u1)" "?req B2 t2 = (q2, u2)" by force
  note rp = request_pair [OF cv cr pcro ppc B1 B2 q]
  have direct: ?thesis if "?req B1 t1 = (out1, s1)" "?req B2 t2 = (out2, s2)"
    using rp that q by simp
  have wrapped: ?thesis
    if "(case ?req B1 t1 of (Thrown e, s') \<Rightarrow> (Rejected e, s') | r \<Rightarrow> r) = (out1, s1)"
       "(case ?req B2 t2 of (Thrown e, s') \<Rightarrow> (Rejected e, s') | r \<Rightarrow> r) = (out2, s2)"
  proof (cases q1)
    case (Dispatched o1)
    with rp obtain o2 where "q2 = Dispatched o2" by auto
    with Dispatched that q rp show ?thesis by simp
  next
    case (Rejected e)
    with rp have "q2 = Rejected e" by auto
    with Rejected that q rp show ?thesis by auto
  next
    case (Thrown e)
    with rp have "q2 = Thrown e" by auto
    with Thrown that q rp show ?thesis by auto
  qed
  show ?thesis
  proof (cases "schema d")
    case None
    with e1 e2 show ?thesis by (intro direct) simp_all
  next
    case (Some sc)
    show ?thesis
    proof (cases "validate dep h (VRef args) (req sc)")
      case (Some e)
      with \<open>schema d = Some sc\<close> e1 e2 show ?thesis by auto
    next
      case None note v1 = this
      show ?thesis
      proof (cases "validate dep h (VRef args) (query sc)")
        case (Some e)
        with v1 \<open>schema d = Some sc\<close> e1 e2 show ?thesis by auto
      next
        case None note v2 = this
        show ?thesis
        proof (cases "\<exists>qs. query sc = Some qs \<and> s_properties qs = None")
          case True
          with v1 v2 \<open>schema d = Some sc\<close> e1 e2 show ?thesis by auto
        next
          case False
          with v1 v2 \<open>schema d = Some sc\<close> e1 e2 show ?thesis
            by (intro wrapped) simp_all
        qed
      qed
    qed
  qed
qed

section \<open>The default libraries read documents only\<close>

lemma same_doc_atoms:
  assumes "same_doc h h' v v'"
  shows "(v = VUndefined \<longleftrightarrow> v' = VUndefined) \<and> (v = VNull \<longleftrightarrow> v' = VNull)
       \<and> json_type v = json_type v'"
  using assms by (cases rule: same_doc.cases) (simp_all add: json_type_def)

lemma same_doc_to_string: "same_doc h h' v v' \<Longrightarrow> to_string v = to_string v'"
proof (induction rule: same_doc.induct)
  case (sd_arr xs ys)
  have "map (\<lambda>v. if v = VUndefined \<or> v = VNull then [] else to_string v) xs
      = map (\<lambda>v. if v = VUndefined \<or> v = VNull then [] else to_string v) ys"
    using sd_arr
  proof (induction xs ys rule: list_all2_induct)
    case Nil
    then show ?case by simp
  next
    case (Cons x xs y ys)
    then show ?case using same_doc_atoms [of h h' x y] by auto
  qed
  then show ?case by simp
qed simp_all

lemma same_doc_prop:
  assumes "same_doc h h' (VRef a) (VRef a')"
  shows "(deref h a k = None \<longleftrightarrow> deref h' a' k = None)
       \<and> (\<forall>x x'. deref h a k = Some x \<longrightarrow> deref h' a' k = Some x' \<longrightarrow> same_doc h h' x x')"
proof -
  from assms have a: "a < length h" "a' < length h'" and d: "dom (h ! a) = dom (h' ! a')"
    and f: "\<forall>k v v'. (h ! a) k = Some v \<longrightarrow> (h' ! a') k = Some v' \<longrightarrow> same_doc h h' v v'"
    by (subst (asm) same_doc.simps, simp)+
  have "(h ! a) k = None \<longleftrightarrow> k \<notin> dom (h ! a)" "(h' ! a') k = None \<longleftrightarrow> k \<notin> dom (h' ! a')"
    by (simp_all add: domIff)
  with d have "(h ! a) k = None \<longleftrightarrow> (h' ! a') k = None" by simp
  with a f show ?thesis by (simp add: deref_def)
qed

lemma same_doc_get_prop:
  assumes "same_doc h h' (VRef a) (VRef a')"
  shows "same_doc h h' (get_prop (deref h a) k) (get_prop (deref h' a') k)"
  using same_doc_prop [OF assms, of k]
  by (auto simp: get_prop_def same_doc.intros split: option.splits)

lemma check_required_content:
  assumes "same_doc h h' (VRef a) (VRef a')"
  shows "check_required dp (deref h a) ks = check_required dp (deref h' a') ks"
proof (induction ks)
  case Nil
  then show ?case by simp
next
  case (Cons k ks)
  with same_doc_atoms [OF same_doc_get_prop [OF assms, of k]] show ?case by simp
qed

lemma tv4_check_content:
  "same_doc h h' v v' \<Longrightarrow> tv4_check h dp v sch = tv4_check h' dp v' sch"
proof (induction h dp v sch arbitrary: v' rule: tv4_check.induct)
  case (1 h dp v ty props rq)
  have ct: "check_type dp v ty = check_type dp v' ty"
    using same_doc_atoms [OF 1(2)] by (cases ty) (simp_all add: check_type_def)
  show ?case
  proof (cases "check_type dp v ty")
    case (Some e)
    with ct have "check_type dp v' ty = Some e" by simp
    with Some show ?thesis by (simp add: tv4_check.simps)
  next
    case None note c = this
    with ct have c': "check_type dp v' ty = None" by simp
    from 1(2) show ?thesis
    proof (cases rule: same_doc.cases)
      case (sd_ref a a')
      with 1(2) have sd: "same_doc h h' (VRef a) (VRef a')" by simp
      note cr = check_required_content [OF sd, of dp "case rq of None \<Rightarrow> [] | Some ks \<Rightarrow> ks"]
      show ?thesis
      proof (cases "check_required dp (deref h a) (case rq of None \<Rightarrow> [] | Some ks \<Rightarrow> ks)")
        case (Some e)
        with cr have "check_required dp (deref h' a') (case rq of None \<Rightarrow> [] | Some ks \<Rightarrow> ks)
            = Some e" by simp
        with Some c c' sd_ref show ?thesis by (simp add: tv4_check.simps)
      next
        case None
        with cr have cr': "check_required dp (deref h' a') (case rq of None \<Rightarrow> [] | Some ks \<Rightarrow> ks)
            = None" by simp
        have "(case deref h a (fst ks) of None \<Rightarrow> None
                | Some x \<Rightarrow> tv4_check h (dp @ ''/'' @ replace_all ''/'' ''~1''
                                              (replace_all ''~'' ''~0'' (fst ks))) x (snd ks))
            = (case deref h' a' (fst ks) of None \<Rightarrow> None
                | Some x \<Rightarrow> tv4_check h' (dp @ ''/'' @ replace_all ''/'' ''~1''
                                              (replace_all ''~'' ''~0'' (fst ks))) x (snd ks))"
          if "ks \<in> set (case props of None \<Rightarrow> [] | Some ps \<Rightarrow> ps)" for ks
        proof (cases "deref h a (fst ks)")
          case None
          with same_doc_prop [OF sd, of "fst ks"] show ?thesis by simp
        next
          case (Some x)
          with same_doc_prop [OF sd, of "fst ks"] obtain x' where
            x': "deref h' a' (fst ks) = Some x'" "same_doc h h' x x'" by auto
          from 1(1) [OF c sd_ref(1) \<open>check_required dp (deref h a) _ = None\<close> that Some x'(2)]
          show ?thesis using Some x' by simp
        qed
        then have me: "map (\<lambda>ks. case deref h a (fst ks) of None \<Rightarrow> None
                | Some x \<Rightarrow> tv4_check h (dp @ ''/'' @ replace_all ''/'' ''~1''
                                              (replace_all ''~'' ''~0'' (fst ks))) x (snd ks))
                  (case props of None \<Rightarrow> [] | Some ps \<Rightarrow> ps)
            = map (\<lambda>ks. case deref h' a' (fst ks) of None \<Rightarrow> None
                | Some x \<Rightarrow> tv4_check h' (dp @ ''/'' @ replace_all ''/'' ''~1''
                                              (replace_all ''~'' ''~0'' (fst ks))) x (snd ks))
                  (case props of None \<Rightarrow> [] | Some ps \<Rightarrow> ps)"
          by (intro map_cong) simp_all
        have L: "tv4_check h dp v (Schema ty props rq)
            = first_error (map (\<lambda>ks. case deref h a (fst ks) of None \<Rightarrow> None
                | Some x \<Rightarrow> tv4_check h (dp @ ''/'' @ replace_all ''/'' ''~1''
                                              (replace_all ''~'' ''~0'' (fst ks))) x (snd ks))
                  (case props of None \<Rightarrow> [] | Some ps \<Rightarrow> ps))"
          using c None sd_ref by (subst tv4_check.simps) simp
        have R: "tv4_check h' dp v' (Schema ty props rq)
            = first_error (map (\<lambda>ks. case deref h' a' (fst ks) of None \<Rightarrow> None
                | Some x \<Rightarrow> tv4_check h' (dp @ ''/'' @ replace_all ''/'' ''~1''
                                              (replace_all ''~'' ''~0'' (fst ks))) x (snd ks))
                  (case props of None \<Rightarrow> [] | Some ps \<Rightarrow> ps))"
          using c' cr' sd_ref by (subst tv4_check.simps) simp
        show ?thesis by (simp only: L R me)
      qed
    qed (use c c' in \<open>simp_all add: tv4_check.simps\<close>)
  qed
qed

lemma content_only_tv4_default: "content_only tv4_default"
  unfolding content_only_def tv4_default_def
  by (auto simp: fun_eq_iff intro: tv4_check_content)


lemma render_value_content:
  "same_doc h h' x x' \<Longrightarrow> render_value escaped x = render_value escaped x'"
  using same_doc_atoms [of h h' x x'] same_doc_to_string [of h h' x x']
  by (simp add: render_value_def)

lemma same_doc_member:
  assumes "same_doc h h' v v'"
  shows "js_in h v name = js_in h' v' name
       \<and> same_doc h h' (get_member h v name) (get_member h' v' name)"
  using assms
proof (cases rule: same_doc.cases)
  case (sd_arr xs ys)
  then have l: "length xs = length ys" and n: "\<forall>i < length xs. same_doc h h' (xs ! i) (ys ! i)"
    by (auto simp: list_all2_conv_all_nth)
  have "index_of name (length ys) = Some i \<Longrightarrow> i < length ys" for i
    by (auto simp: index_of_def find_Some_iff)
  with sd_arr l n show ?thesis
    by (auto simp: js_in_def same_doc.intros split: option.splits)
next
  case (sd_ref a a')
  with assms have sd: "same_doc h h' (VRef a) (VRef a')" by simp
  from same_doc_prop [OF sd, of name] same_doc_get_prop [OF sd, of name] sd_ref
  show ?thesis by (simp add: js_in_def has_key_def)
qed (auto simp: js_in_def intro: same_doc.intros split: option.splits)

lemma render_tag_content:
  assumes "same_doc h h' v v'"
  shows "render_tag h v escaped name = render_tag h' v' escaped name"
proof -
  have "rel_option (same_doc h h') (view_lookup h v n) (view_lookup h' v' n)" for n
    using assms same_doc_member [OF assms, of n]
    by (auto simp: view_lookup_def same_doc.intros)
  from this [of "trim name"] show ?thesis
    unfolding render_tag_def
    by (cases "view_lookup h v (trim name)"; cases "view_lookup h' v' (trim name)")
       (auto simp: render_value_content)
qed

lemma content_only_mustache_default:
  "content_only (\<lambda>h v tpl. mustache_default h tpl v)"
  unfolding content_only_def
proof (intro allI impI)
  fix h h' :: heap and v v' :: val
  assume sd: "same_doc h h' v v'"
  have "render_tag h v = render_tag h' v'"
    by (intro ext) (rule render_tag_content [OF sd])
  then show "(\<lambda>tpl. mustache_default h tpl v) = (\<lambda>tpl. mustache_default h' tpl v')"
    by (simp add: mustache_default_def)
qed

text \<open>C9. Calling the same generated operation twice with the same argument object builds
  two independent request specifications with identical field values, and nothing written
  during the first call is observable by the second. The library is taken to read only the
  documents it is given, and the argument, the configured request options and the
  descriptor's request options are plain data of the store. Then neither call changes an
  object that existed before it, a failing first call is repeated by the same failure of the
  second, and for a successful first call the second dispatches a request object of its own,
  at a fresh address, whose fields are those of the first: every key but \<^verbatim>\<open>headers\<close> holds
  the same value, and the two \<^verbatim>\<open>headers\<close> are distinct fresh objects with the same contents.
  The request object and the headers of the first call are left as they were by the second.\<close>

theorem operation_twice:
  assumes cv: "content_only (tv4_validate dep)"
    and cr: "content_only (\<lambda>h v tpl. mustache_render dep h tpl v)"
    and pa: "plain_data (store s) (VRef args)"
    and pcro: "plain_data (store s) (cfg_requestOptions (config c))"
    and pd: "plain_data (store s) (requestOptions d)"
    and r1: "operation c dep d s (Some args) = (out1, s1)"
    and r2: "operation c dep d s1 (Some args) = (out2, s2)"
  shows "take (length (store s)) (store s1) = store s
       \<and> take (length (store s1)) (store s2) = store s1
       \<and> (\<forall>e. out1 = Rejected e \<longrightarrow> out2 = Rejected e)
       \<and> (\<forall>e. out1 = Thrown e \<longrightarrow> out2 = Thrown e)
       \<and> (\<forall>o1. out1 = Dispatched o1 \<longrightarrow>
             (\<exists>o2 hd1 hd2. out2 = Dispatched o2 \<and> o1 \<noteq> o2 \<and> hd1 \<noteq> hd2
                \<and> length (store s) \<le> o1 \<and> o1 < length (store s1)
                \<and> length (store s1) \<le> o2 \<and> o2 < length (store s2)
                \<and> (\<forall>k. k \<noteq> ''headers'' \<longrightarrow> deref (store s2) o2 k = deref (store s1) o1 k)
                \<and> deref (store s1) o1 ''headers'' = Some (VRef hd1)
                \<and> deref (store s2) o2 ''headers'' = Some (VRef hd2)
                \<and> length (store s) \<le> hd1 \<and> hd1 < length (store s1)
                \<and> length (store s1) \<le> hd2 \<and> hd2 < length (store s2)
                \<and> deref (store s2) hd2 = deref (store s1) hd1
                \<and> deref (store s2) o1 = deref (store s1) o1
                \<and> deref (store s2) hd1 = deref (store s1) hd1))"
proof -
  obtain h t where s: "s = \<lparr>store = h, sent = t\<rparr>" by (cases s) simp
  obtain h1 t1 where s1: "s1 = \<lparr>store = h1, sent = t1\<rparr>" by (cases s1) simp
  have pa': "plain_data h (VRef args)" and pcro': "plain_data h (cfg_requestOptions (config c))"
    and pd': "plain_data h (requestOptions d)"
    using pa pcro pd by (simp_all add: s)
  have B: "h = h @ []" by simp
  note r1' = r1 [unfolded s]
  note first = operation_pair [OF cv cr pa' pcro' pd' B B r1' r1']
  then obtain Y where Y: "h1 = h @ Y" by (auto simp: s1)
  note r2' = r2 [unfolded s1]
  note second = operation_pair [OF cv cr pa' pcro' pd' B Y r1' r2']
  note third = operation_pair [OF cv cr pa' pcro' pd' Y Y r2' r2']
  from second obtain Z where Z: "store s2 = h1 @ Z" by auto
  have keep1: "take (length (store s)) (store s1) = store s" by (simp add: s s1 Y)
  have keep2: "take (length (store s1)) (store s2) = store s1" by (simp add: s1 Z)
  have old: "deref (store s2) a = deref (store s1) a" if "a < length (store s1)" for a
    using that by (simp add: s1 Z deref_def nth_append)
  have rej: "\<forall>e. out1 = Rejected e \<longrightarrow> out2 = Rejected e" using second by blast
  have thr: "\<forall>e. out1 = Thrown e \<longrightarrow> out2 = Thrown e" using second by blast
  have disp: "\<exists>o2 hd1 hd2. out2 = Dispatched o2 \<and> o1 \<noteq> o2 \<and> hd1 \<noteq> hd2
                \<and> length (store s) \<le> o1 \<and> o1 < length (store s1)
                \<and> length (store s1) \<le> o2 \<and> o2 < length (store s2)
                \<and> (\<forall>k. k \<noteq> ''headers'' \<longrightarrow> deref (store s2) o2 k = deref (store s1) o1 k)
                \<and> deref (store s1) o1 ''headers'' = Some (VRef hd1)
                \<and> deref (store s2) o2 ''headers'' = Some (VRef hd2)
                \<and> length (store s) \<le> hd1 \<and> hd1 < length (store s1)
                \<and> length (store s1) \<le> hd2 \<and> hd2 < length (store s2)
                \<and> deref (store s2) hd2 = deref (store s1) hd1
                \<and> deref (store s2) o1 = deref (store s1) o1
                \<and> deref (store s2) hd1 = deref (store s1) hd1"
    if d1: "out1 = Dispatched o1" for o1
  proof -
    from second d1 obtain o2 hd1 hd2 where
      o2: "out2 = Dispatched o2"
      and b: "length h \<le> o1" "o1 < length (store s1)" "length h1 \<le> o2"
      and k: "\<forall>k. k \<noteq> ''headers'' \<longrightarrow> deref (store s2) o2 k = deref (store s1) o1 k"
      and h1: "deref (store s1) o1 ''headers'' = Some (VRef hd1)"
      and h2: "deref (store s2) o2 ''headers'' = Some (VRef hd2)"
      and hb: "length h \<le> hd1" "hd1 < length (store s1)" "length h1 \<le> hd2"
      and he: "deref (store s2) hd2 = deref (store s1) hd1"
      by blast
    from third o2 obtain o2' hd2' hd2'' where
      "Dispatched o2 = Dispatched o2'" "o2 < length (store s2)"
      "deref (store s2) o2 ''headers'' = Some (VRef hd2')" "hd2' < length (store s2)"
      by blast
    with h2 have b2: "o2 < length (store s2)" "hd2 < length (store s2)" by simp_all
    have l1: "length (store s1) = length h1" "length (store s) = length h" by (simp_all add: s s1)
    show ?thesis
      apply (rule exI [of _ o2], rule exI [of _ hd1], rule exI [of _ hd2])
      using o2 b k h1 h2 hb he b2 old [of o1] old [of hd1] l1 by simp
  qed
  from keep1 keep2 rej thr disp show ?thesis by blast
qed

theorem operation_twice_witness:
  "fst (operation abc_client default_depends secret_descriptor foo_bar_state (Some 0))
     = Dispatched 3
 \<and> (\<exists>o2 hd2.
       fst (operation abc_client default_depends secret_descriptor
             (snd (operation abc_client default_depends secret_descriptor foo_bar_state
                    (Some 0)))
             (Some 0)) = Dispatched o2
     \<and> 6 \<le> o2 \<and> 6 \<le> hd2
     \<and> deref (store (snd (operation abc_client default_depends secret_descriptor
           (snd (operation abc_client default_depends secret_descriptor foo_bar_state
                  (Some 0)))
           (Some 0)))) o2 ''uri''
         = Some (VStr ''http://127.0.0.1:8200/v1/secret/foo/bar'')
     \<and> deref (store (snd (operation abc_client default_depends secret_descriptor
           (snd (operation abc_client default_depends secret_descriptor foo_bar_state
                  (Some 0)))
           (Some 0)))) o2 ''headers''
         = Some (VRef hd2)
     \<and> deref (store (snd (operation abc_client default_depends secret_descriptor
           (snd (operation abc_client default_depends secret_descriptor foo_bar_state
                  (Some 0)))
           (Some 0)))) hd2 ''X-Vault-Token''
         = Some (VStr ''abc''))"
proof -
  let ?R1 = "operation abc_client default_depends secret_descriptor foo_bar_state (Some 0)"
  let ?R2 = "operation abc_client default_depends secret_descriptor (snd ?R1) (Some 0)"
  have f1: "fst ?R1 = Dispatched 3" by code_simp
  have g1: "deref (store (snd ?R1)) 3 ''headers'' = Some (VRef 4)" by code_simp
  have u1: "deref (store (snd ?R1)) 3 ''uri''
              = Some (VStr ''http://127.0.0.1:8200/v1/secret/foo/bar'')"
    by code_simp
  have t1: "deref (store (snd ?R1)) 4 ''X-Vault-Token'' = Some (VStr ''abc'')" by code_simp
  have l1: "length (store (snd ?R1)) = 6" by code_simp
  from f1 have r1: "?R1 = (Dispatched 3, snd ?R1)" by (simp add: prod_eq_iff)
  have r2: "?R2 = (fst ?R2, snd ?R2)" by simp
  have cv: "content_only (tv4_validate default_depends)"
    by (simp add: default_depends_def content_only_tv4_default)
  have cr: "content_only (\<lambda>h v tpl. mustache_render default_depends h tpl v)"
    by (simp add: default_depends_def content_only_mustache_default)
  have pa: "plain_data (store foo_bar_state) (VRef 0)"
    unfolding plain_data_def foo_bar_state_def
    by (rule same_doc.intros) (auto intro: same_doc.intros)
  have pc: "plain_data (store foo_bar_state) (cfg_requestOptions (config abc_client))"
    unfolding plain_data_def abc_client_def new_client_def
    by (simp add: same_doc.intros)
  have pd: "plain_data (store foo_bar_state) (requestOptions secret_descriptor)"
    unfolding plain_data_def secret_descriptor_def
    by (simp add: same_doc.intros)
  from operation_twice [OF cv cr pa pc pd r1 r2]
  obtain o2 hd1 hd2 where
    d: "fst ?R2 = Dispatched o2" and o: "length (store (snd ?R1)) \<le> o2"
    and k: "\<forall>k. k \<noteq> ''headers'' \<longrightarrow>
              deref (store (snd ?R2)) o2 k = deref (store (snd ?R1)) 3 k"
    and h1: "deref (store (snd ?R1)) 3 ''headers'' = Some (VRef hd1)"
    and h2: "deref (store (snd ?R2)) o2 ''headers'' = Some (VRef hd2)"
    and b: "length (store (snd ?R1)) \<le> hd2"
    and e: "deref (store (snd ?R2)) hd2 = deref (store (snd ?R1)) hd1"
    by blast
  from h1 g1 have hd1: "hd1 = 4" by simp
  from k have u2: "deref (store (snd ?R2)) o2 ''uri'' = deref (store (snd ?R1)) 3 ''uri''"
    by simp
  show ?thesis
    apply (rule conjI [OF f1])
    apply (rule exI [of _ o2], rule exI [of _ hd2])
    using d o b u2 u1 h2 e hd1 t1 l1 by simp
qed

end
